theory Spec2Isabelle
  imports Complex_Main
begin

section \<open>The image asset pipeline of \<^verbatim>\<open>tooling/postexport.py\<close>\<close>

text \<open>
  The theory embeds the image pipeline of the post-export script: the content store
  (\<^verbatim>\<open>download_remote_image\<close>, \<^verbatim>\<open>import_local_image\<close>), the variant generator
  (\<^verbatim>\<open>make_variants\<close>), the manifest cache (\<^verbatim>\<open>load_manifest\<close>,
  \<^verbatim>\<open>ensure_variants_with_cache\<close>) and the two reference rewriters
  (\<^verbatim>\<open>rewrite_img_tags\<close>, \<^verbatim>\<open>rewrite_css_urls\<close>).

  Strings are lists of 8-bit characters and the string functions are the ASCII fragment of
  Python's. Paths follow \<^verbatim>\<open>posixpath\<close>. The file system is a map from paths to the
  contents of regular files (directories are not represented, so \<^verbatim>\<open>ensure_dir\<close> does
  nothing here). What the script gets from libraries and from the outside world (HTTP,
  SHA-1, Pillow, the JSON parser, the clock) is a field of the record \<open>env\<close>. An
  exception is a value \<open>Inl e\<close>; the state reached when it was raised is returned with it.
\<close>

subsection \<open>Python strings\<close>

type_synonym path = string
type_synonym bytes = string

definition is_space :: "char \<Rightarrow> bool" where
  "is_space c = (let n = (of_char c :: nat) in (9 \<le> n \<and> n \<le> 13) \<or> (28 \<le> n \<and> n \<le> 32))"

definition is_digit :: "char \<Rightarrow> bool" where
  "is_digit c = (let n = (of_char c :: nat) in 48 \<le> n \<and> n \<le> 57)"

definition is_lower :: "char \<Rightarrow> bool" where
  "is_lower c = (let n = (of_char c :: nat) in 97 \<le> n \<and> n \<le> 122)"

definition is_upper :: "char \<Rightarrow> bool" where
  "is_upper c = (let n = (of_char c :: nat) in 65 \<le> n \<and> n \<le> 90)"

definition lower_char :: "char \<Rightarrow> char" where
  "lower_char c = (if is_upper c then char_of (of_char c + (32 :: nat)) else c)"

definition upper_char :: "char \<Rightarrow> char" where
  "upper_char c = (if is_lower c then char_of (of_char c - (32 :: nat)) else c)"

definition lower :: "string \<Rightarrow> string" where
  "lower s = map lower_char s"

definition upper :: "string \<Rightarrow> string" where
  "upper s = map upper_char s"

definition lstrip :: "(char \<Rightarrow> bool) \<Rightarrow> string \<Rightarrow> string" where
  "lstrip P s = dropWhile P s"

definition rstrip :: "(char \<Rightarrow> bool) \<Rightarrow> string \<Rightarrow> string" where
  "rstrip P s = rev (dropWhile P (rev s))"

definition strip :: "(char \<Rightarrow> bool) \<Rightarrow> string \<Rightarrow> string" where
  "strip P s = rstrip P (lstrip P s)"

definition startswith :: "string \<Rightarrow> string \<Rightarrow> bool" where
  "startswith s p = (take (length p) s = p)"

definition endswith :: "string \<Rightarrow> string \<Rightarrow> bool" where
  "endswith s p = (length p \<le> length s \<and> drop (length s - length p) s = p)"

text \<open>\<^verbatim>\<open>str(n)\<close> for an integer, and \<^verbatim>\<open>int(s)\<close> for a string of decimal digits.\<close>

definition digit_char :: "int \<Rightarrow> char" where
  "digit_char d = char_of (48 + d)"

function show_digits :: "int \<Rightarrow> string" where
  "show_digits n =
     (if n < 10 then [digit_char n] else show_digits (n div 10) @ [digit_char (n mod 10)])"
  by pat_completeness auto
termination
  by (relation "measure nat") auto

declare show_digits.simps [simp del]

definition show_int :: "int \<Rightarrow> string" where
  "show_int i = (if i < 0 then CHR ''-'' # show_digits (- i) else show_digits i)"

definition parse_int :: "string \<Rightarrow> int" where
  "parse_int ds = foldl (\<lambda>a c. 10 * a + (of_char c - 48)) 0 ds"

text \<open>
  \<^verbatim>\<open>re.sub(r"C{n,}", "-", s)\<close> for a character class \<open>C\<close>: every maximal run of at least
  \<open>n\<close> characters of the class becomes one hyphen.
\<close>

function re_sub_runs :: "nat \<Rightarrow> (char \<Rightarrow> bool) \<Rightarrow> string \<Rightarrow> string" where
  "re_sub_runs n P [] = []"
| "re_sub_runs n P (c # cs) =
     (if P c \<and> n \<le> Suc (length (takeWhile P cs))
      then CHR ''-'' # re_sub_runs n P (dropWhile P cs)
      else c # re_sub_runs n P cs)"
  by pat_completeness auto
termination
  by (relation "measure (\<lambda>(n, P, s). length s)")
     (auto simp: le_imp_less_Suc length_dropWhile_le)

definition slug_char :: "char \<Rightarrow> bool" where
  "slug_char c = (is_lower c \<or> is_digit c \<or> c = CHR ''.'' \<or> c = CHR ''_'' \<or> c = CHR ''-'')"

definition slugify_name :: "string \<Rightarrow> string" where
  "slugify_name name0 =
     (let name1 = lower (strip is_space name0);
          name2 = filter (\<lambda>c. c \<noteq> CHR 0x28 \<and> c \<noteq> CHR 0x29) name1;
          name3 = re_sub_runs 1 is_space name2;
          name4 = re_sub_runs 1 (\<lambda>c. \<not> slug_char c) name3;
          name5 = strip (\<lambda>c. c = CHR ''-'') (re_sub_runs 2 (\<lambda>c. c = CHR ''-'') name4)
      in if name5 = [] then ''asset'' else name5)"

subsection \<open>Paths (\<^verbatim>\<open>posixpath\<close>)\<close>

definition join :: "path \<Rightarrow> path \<Rightarrow> path" where
  "join a b =
     (if startswith b ''/'' then b
      else if a = [] \<or> endswith a ''/'' then a @ b
      else a @ ''/'' @ b)"

definition basename :: "path \<Rightarrow> string" where
  "basename p = rev (takeWhile (\<lambda>c. c \<noteq> CHR ''/'') (rev p))"

definition dirname :: "path \<Rightarrow> path" where
  "dirname p =
     (let head = rev (dropWhile (\<lambda>c. c \<noteq> CHR ''/'') (rev p))
      in if head = [] \<or> list_all (\<lambda>c. c = CHR ''/'') head then head
         else rstrip (\<lambda>c. c = CHR ''/'') head)"

text \<open>
  \<^verbatim>\<open>os.path.splitext\<close>: the extension starts at the last dot of the last path component,
  unless only dots come before it in that component.
\<close>

definition splitext :: "path \<Rightarrow> path \<times> string" where
  "splitext p =
     (let b = basename p;
          e = rev (takeWhile (\<lambda>c. c \<noteq> CHR ''.'') (rev b));
          front = take (length b - Suc (length e)) b
      in if CHR ''.'' \<in> set b \<and> list_ex (\<lambda>c. c \<noteq> CHR ''.'') front
         then (take (length p - Suc (length e)) p, CHR ''.'' # e)
         else (p, []))"

subsection \<open>The outside world\<close>

datatype error =
    FetchError
  | FileNotFound
  | DecodeError
  | EncodeError
  | ZeroDivisionError
  | SameFileError
  | JSONDecodeError
  | ValueError

text \<open>
  A manifest entry as the script writes it:
  \<^verbatim>\<open>{"original": ..., "variants": [...], "ts": ...}\<close>.
\<close>

record entry =
  original :: path
  variants :: "path list"
  ts :: int

text \<open>
  \<open>http_get url\<close> is the body \<^verbatim>\<open>requests.get(url).content\<close> after
  \<^verbatim>\<open>raise_for_status\<close>, \<open>None\<close> when either raises. \<open>sha1_hex\<close> is
  \<^verbatim>\<open>hashlib.sha1(b).hexdigest()\<close>, \<open>url_path\<close> is \<^verbatim>\<open>urlparse(url).path\<close>,
  \<open>image_size\<close> is \<^verbatim>\<open>Image.open(p).size\<close> as a function of the file's bytes
  (\<open>None\<close>: Pillow cannot identify the image). \<open>pil_save d size out fmt q\<close> is what
  \<^verbatim>\<open>save\<close> writes to \<open>out\<close> for the image \<open>d\<close>, resized to \<open>size\<close> first when that is
  given, with the format name \<open>fmt\<close> and the \<^verbatim>\<open>quality\<close> keyword \<open>q\<close> when one is passed;
  \<open>None\<close> when \<^verbatim>\<open>resize\<close> or \<^verbatim>\<open>save\<close> raises. \<open>clock\<close> is \<^verbatim>\<open>int(time.time())\<close>,
  \<open>cwd\<close> is \<^verbatim>\<open>os.getcwd()\<close>. \<open>json_load\<close> is \<^verbatim>\<open>json.load\<close> on the text of the manifest
  file, giving the dictionary under \<^verbatim>\<open>"images"\<close> (\<open>None\<close>: the text does not parse), and
  \<open>zip_members\<close> lists the members of a zip archive (\<open>None\<close>: not an archive).
\<close>

record env =
  http_get :: "string \<Rightarrow> bytes option"
  sha1_hex :: "bytes \<Rightarrow> string"
  url_path :: "string \<Rightarrow> string"
  image_size :: "bytes \<Rightarrow> (int \<times> int) option"
  pil_save :: "bytes \<Rightarrow> (int \<times> int) option \<Rightarrow> path \<Rightarrow> string \<Rightarrow> int option \<Rightarrow> bytes option"
  clock :: int
  cwd :: path
  json_load :: "bytes \<Rightarrow> (string \<rightharpoonup> entry) option"
  zip_members :: "bytes \<Rightarrow> (path \<times> bytes) list option"

text \<open>
  The state the pipeline works on: the files, the manifest dictionary
  (\<^verbatim>\<open>manifest["images"]\<close>), and a counter of the calls of \<^verbatim>\<open>make_variants\<close>. The
  counter is not a variable of the script: it makes "the generator was invoked"
  a property of the state.
\<close>

record world =
  files :: "path \<rightharpoonup> bytes"
  manifest :: "string \<rightharpoonup> entry"
  gen_calls :: nat

definition path_exists :: "world \<Rightarrow> path \<Rightarrow> bool" where
  "path_exists w p = (files w p \<noteq> None)"

subsection \<open>Variant generator\<close>

definition pil_format_for :: "string \<Rightarrow> string" where
  "pil_format_for ext =
     (let l = lower ext in
      if l = ''jpg'' then ''JPEG''
      else if l = ''jpeg'' then ''JPEG''
      else if l = ''png'' then ''PNG''
      else if l = ''webp'' then ''WEBP''
      else upper ext)"

text \<open>
  Python's \<^verbatim>\<open>float\<close> is IEEE 754 binary64. \<open>fl x\<close> rounds the rational \<open>x\<close> to the
  nearest number with a 53-bit significand, ties to the even significand; the exponent
  range is not bounded (no overflow, no subnormal numbers: the quotients and products of
  image sizes are far from both).
\<close>

function bitlen :: "int \<Rightarrow> nat" where
  "bitlen n = (if n \<le> 0 then 0 else Suc (bitlen (n div 2)))"
  by pat_completeness auto
termination
  by (relation "measure nat") auto

declare bitlen.simps [simp del]

definition pow2 :: "int \<Rightarrow> rat" where
  "pow2 e = (if 0 \<le> e then 2 ^ nat e else 1 / 2 ^ nat (- e))"

definition ilog2 :: "rat \<Rightarrow> int" where
  "ilog2 x =
     (let (p, q) = quotient_of x;
          k = int (bitlen p) - int (bitlen q)
      in if pow2 k \<le> x then k else k - 1)"

definition round_even :: "rat \<Rightarrow> int" where
  "round_even m =
     (let f = \<lfloor>m\<rfloor>; r = m - of_int f
      in if r < 1 / 2 then f
         else if 1 / 2 < r then f + 1
         else if even f then f else f + 1)"

definition fl :: "rat \<Rightarrow> rat" where
  "fl x =
     (if x = 0 then 0
      else let a = \<bar>x\<bar>; u = pow2 (ilog2 a - 52)
           in sgn x * of_int (round_even (a / u)) * u)"

text \<open>\<^verbatim>\<open>int(x)\<close> of a float: truncation toward zero.\<close>

definition trunc :: "rat \<Rightarrow> int" where
  "trunc x = (if 0 \<le> x then \<lfloor>x\<rfloor> else \<lceil>x\<rceil>)"

text \<open>
  The height of the variant of width \<open>target\<close> of an image of natural size \<open>(w, h)\<close>:
  \<^verbatim>\<open>ratio = target / float(w); max(1, int(h * ratio))\<close>.
\<close>

definition variant_height :: "int \<Rightarrow> int \<Rightarrow> int \<Rightarrow> int" where
  "variant_height h w target =
     (let ratio = fl (fl (of_int target) / fl (of_int w))
      in max 1 (trunc (fl (fl (of_int h) * ratio))))"

text \<open>
  The height as the specification words it, \<^verbatim>\<open>round(height * width_target /
  natural_width)\<close> with a minimum of 1: the quotient of the two integers as a float,
  rounded to the nearest integer (Python rounds ties to even). It is compared with
  \<open>variant_height\<close> below.
\<close>

definition spec_height :: "int \<Rightarrow> int \<Rightarrow> int \<Rightarrow> int" where
  "spec_height h w target = max 1 (round_even (fl (of_int (h * target) / of_int w)))"

definition variant_name :: "string \<Rightarrow> int \<Rightarrow> string \<Rightarrow> string" where
  "variant_name stem width ext = stem @ ''-'' @ show_int width @ ''w.'' @ ext"

definition save_kwargs :: "string \<Rightarrow> int \<Rightarrow> int option" where
  "save_kwargs ext q =
     (if lower ext \<in> {''webp'', ''jpeg'', ''jpg'', ''png''} then Some q else None)"

text \<open>The loop \<^verbatim>\<open>for target in widths\<close> of \<^verbatim>\<open>make_variants\<close>.\<close>

fun variants_loop ::
  "env \<Rightarrow> bytes \<Rightarrow> int \<times> int \<Rightarrow> path \<Rightarrow> string \<Rightarrow> string \<Rightarrow> int \<Rightarrow> int list \<Rightarrow>
   (int \<times> path) list \<Rightarrow> (path \<rightharpoonup> bytes) \<Rightarrow> (error + (int \<times> path) list) \<times> (path \<rightharpoonup> bytes)"
where
  "variants_loop E im sz out_dir stem ext q [] acc fs = (Inr acc, fs)"
| "variants_loop E im sz out_dir stem ext q (target # rest) acc fs =
     (if fst sz \<le> target then variants_loop E im sz out_dir stem ext q rest acc fs
      else if fst sz = 0 then (Inl ZeroDivisionError, fs)
      else
        let size = (target, variant_height (snd sz) (fst sz) target);
            out_path = join out_dir (variant_name stem target ext)
        in case pil_save E im (Some size) out_path (pil_format_for ext) (save_kwargs ext q) of
             None \<Rightarrow> (Inl EncodeError, fs)
           | Some b \<Rightarrow>
               variants_loop E im sz out_dir stem ext q rest
                 (acc @ [(target, out_path)]) (fs(out_path \<mapsto> b)))"

definition make_variants ::
  "env \<Rightarrow> path \<Rightarrow> path \<Rightarrow> int list \<Rightarrow> string \<Rightarrow> int \<Rightarrow> world \<Rightarrow>
   (error + (int \<times> path) list) \<times> world"
where
  "make_variants E img_path out_dir widths fmt q w0 =
     (let w = w0\<lparr>gen_calls := Suc (gen_calls w0)\<rparr> in
      case files w img_path of
        None \<Rightarrow> (Inl FileNotFound, w)
      | Some im \<Rightarrow>
         (case image_size E im of
            None \<Rightarrow> (Inl DecodeError, w)
          | Some sz \<Rightarrow>
             let stem = slugify_name (fst (splitext (basename img_path)));
                 ext = (if fmt = ''keep''
                        then lstrip (\<lambda>c. c = CHR ''.'') (snd (splitext img_path))
                        else fmt)
             in case variants_loop E im sz out_dir stem ext q widths [] (files w) of
                  (Inl e, fs) \<Rightarrow> (Inl e, w\<lparr>files := fs\<rparr>)
                | (Inr vs, fs) \<Rightarrow>
                   let largest_path = join out_dir (variant_name stem (fst sz) ext);
                       written =
                         (if fmt = ''keep''
                          then (if img_path = largest_path then Inl SameFileError
                                else case fs img_path of
                                       None \<Rightarrow> Inl FileNotFound
                                     | Some d \<Rightarrow> Inr d)
                          else case pil_save E im None largest_path (pil_format_for ext) (Some q) of
                                 None \<Rightarrow> Inl EncodeError
                               | Some b \<Rightarrow> Inr b)
                   in case written of
                        Inl e \<Rightarrow> (Inl e, w\<lparr>files := fs\<rparr>)
                      | Inr b \<Rightarrow>
                          (Inr (sort_key fst (vs @ [(fst sz, largest_path)])),
                           w\<lparr>files := fs(largest_path \<mapsto> b)\<rparr>)))"

subsection \<open>Content store\<close>

definition hash12 :: "env \<Rightarrow> bytes \<Rightarrow> string" where
  "hash12 E b = take 12 (sha1_hex E b)"

definition filename_from_url :: "env \<Rightarrow> string \<Rightarrow> string" where
  "filename_from_url E url =
     (let name = basename (url_path E url) in if name = [] then ''asset'' else name)"

text \<open>\<^verbatim>\<open>if not os.path.exists(out): write data to out\<close>, the end of both ingestion functions.\<close>

definition write_once :: "path \<Rightarrow> bytes \<Rightarrow> world \<Rightarrow> world" where
  "write_once out d w = (if path_exists w out then w else w\<lparr>files := (files w)(out \<mapsto> d)\<rparr>)"

definition download_remote_image ::
  "env \<Rightarrow> string \<Rightarrow> path \<Rightarrow> world \<Rightarrow> (error + path \<times> string) \<times> world"
where
  "download_remote_image E url dest_dir w =
     (case http_get E url of
        None \<Rightarrow> (Inl FetchError, w)
      | Some d \<Rightarrow>
          let h = hash12 E d;
              base = slugify_name (filename_from_url E url);
              out = join dest_dir (h @ ''-'' @ base)
          in (Inr (out, h), write_once out d w))"

definition import_local_image ::
  "env \<Rightarrow> path \<Rightarrow> path \<Rightarrow> world \<Rightarrow> (error + path \<times> string) \<times> world"
where
  "import_local_image E local_path dest_dir w =
     (case files w local_path of
        None \<Rightarrow> (Inl FileNotFound, w)
      | Some d \<Rightarrow>
          let h = hash12 E d;
              base = slugify_name (basename local_path);
              out = join dest_dir (h @ ''-'' @ base)
          in (Inr (out, h), write_once out d w))"

subsection \<open>Manifest cache\<close>



text \<open>
  The test \<^verbatim>\<open>entry and all(os.path.exists(p) for p in entry.get("variants", []))\<close>.
  An entry of the shape above is not an empty dictionary and has its \<^verbatim>\<open>variants\<close>, so
  the test is: the hash is in the manifest and every recorded path exists.
\<close>

definition cache_hit :: "world \<Rightarrow> string \<Rightarrow> bool" where
  "cache_hit w content_hash =
     (case manifest w content_hash of
        None \<Rightarrow> False
      | Some e \<Rightarrow> list_all (path_exists w) (variants e))"

definition ensure_variants_with_cache ::
  "env \<Rightarrow> path \<Rightarrow> string \<Rightarrow> path \<Rightarrow> int list \<Rightarrow> string \<Rightarrow> int \<Rightarrow> world \<Rightarrow>
   (error + path list) \<times> world"
where
  "ensure_variants_with_cache E downloaded_path content_hash var_dir widths fmt q w =
     (if cache_hit w content_hash
      then (Inr (variants (the (manifest w content_hash))), w)
      else
        case make_variants E downloaded_path var_dir widths fmt q w of
          (Inl e, w') \<Rightarrow> (Inl e, w')
        | (Inr pairs, w') \<Rightarrow>
            let variant_paths = map snd pairs
            in (Inr variant_paths,
                w'\<lparr>manifest := (manifest w')(content_hash \<mapsto>
                     \<lparr>original = downloaded_path, variants = variant_paths, ts = clock E\<rparr>)\<rparr>))"

subsection \<open>Relative paths and percent-encoding\<close>

fun split_on :: "char \<Rightarrow> string \<Rightarrow> string list" where
  "split_on s [] = [[]]"
| "split_on s (c # cs) =
     (if c = s then [] # split_on s cs
      else case split_on s cs of
             [] \<Rightarrow> [[c]]
           | x # xs \<Rightarrow> (c # x) # xs)"

fun join_with :: "string \<Rightarrow> string list \<Rightarrow> string" where
  "join_with s [] = []"
| "join_with s [x] = x"
| "join_with s (x # y # ys) = x @ s @ join_with s (y # ys)"

definition norm_step :: "nat \<Rightarrow> string list \<Rightarrow> string \<Rightarrow> string list" where
  "norm_step initial new_comps part =
     (if part = [] \<or> part = ''.'' then new_comps
      else if (initial = 0 \<and> new_comps = []) \<or> (new_comps \<noteq> [] \<and> last new_comps = ''..'')
              \<or> part \<noteq> ''..''
      then new_comps @ [part]
      else if new_comps \<noteq> [] then butlast new_comps
      else new_comps)"

definition normpath :: "path \<Rightarrow> path" where
  "normpath p =
     (if p = [] then ''.''
      else
        let initial = (if startswith p ''/''
                       then (if startswith p ''//'' \<and> \<not> startswith p ''///'' then 2 else 1)
                       else 0);
            comps = foldl (norm_step initial) [] (split_on CHR ''/'' p);
            res = replicate initial CHR ''/'' @ join_with ''/'' comps
        in if res = [] then ''.'' else res)"

definition abspath :: "env \<Rightarrow> path \<Rightarrow> path" where
  "abspath E p = normpath (if startswith p ''/'' then p else join (cwd E) p)"

fun common_len :: "string list \<Rightarrow> string list \<Rightarrow> nat" where
  "common_len (x # xs) (y # ys) = (if x = y then Suc (common_len xs ys) else 0)"
| "common_len xs ys = 0"

text \<open>\<^verbatim>\<open>os.path.relpath(p, start)\<close>; it raises \<^verbatim>\<open>ValueError\<close> on the empty path.\<close>

definition relpath :: "env \<Rightarrow> path \<Rightarrow> path \<Rightarrow> error + path" where
  "relpath E p start =
     (if p = [] then Inl ValueError
      else
        let start_list = filter (\<lambda>x. x \<noteq> []) (split_on CHR ''/'' (abspath E start));
            path_list = filter (\<lambda>x. x \<noteq> []) (split_on CHR ''/'' (abspath E p));
            i = common_len start_list path_list;
            rel_list = replicate (length start_list - i) ''..'' @ drop i path_list
        in Inr (if rel_list = [] then ''.'' else join_with ''/'' rel_list))"

text \<open>
  \<^verbatim>\<open>urllib.parse.quote(s, safe="/:")\<close>: letters, digits and \<^verbatim>\<open>_.-~\<close> are kept, and so
  are the two safe characters; every other byte becomes \<^verbatim>\<open>%XX\<close>.
\<close>

definition hex_char :: "nat \<Rightarrow> char" where
  "hex_char n = ''0123456789ABCDEF'' ! n"

definition quote_keeps :: "char \<Rightarrow> bool" where
  "quote_keeps c =
     (is_lower c \<or> is_upper c \<or> is_digit c \<or> c \<in> set ''_.-~'' \<or> c \<in> set ''/:'')"

definition quote_char :: "char \<Rightarrow> string" where
  "quote_char c =
     (if quote_keeps c then [c]
      else [CHR ''%'', hex_char (of_char c div 16), hex_char (of_char c mod 16)])"

definition quote :: "string \<Rightarrow> string" where
  "quote s = concat (map quote_char s)"

definition rel_quoted :: "env \<Rightarrow> path \<Rightarrow> path \<Rightarrow> error + string" where
  "rel_quoted E p doc_dir =
     (case relpath E p doc_dir of Inl e \<Rightarrow> Inl e | Inr relv \<Rightarrow> Inr (quote relv))"

subsection \<open>Resolving one reference\<close>

record config =
  download_images :: bool
  image_dir :: string
  image_variants :: "int list"
  image_format :: string
  quality :: int

text \<open>
  Lines 257 to 265 of \<^verbatim>\<open>process_one_image_url\<close>, and the same code at lines 211 to 219 of
  \<^verbatim>\<open>rewrite_css_urls\<close>: fetch a remote source, or find a local one beside the document
  and then under the output root. \<open>Inr None\<close> is the early \<^verbatim>\<open>return\<close> for a local path
  that does not exist.
\<close>

definition ingest ::
  "env \<Rightarrow> path \<Rightarrow> path \<Rightarrow> path \<Rightarrow> string \<Rightarrow> world \<Rightarrow> (error + (path \<times> string) option) \<times> world"
where
  "ingest E dist_root doc_dir orig_dir src_abs w =
     (if startswith src_abs ''http://'' \<or> startswith src_abs ''https://''
      then (case download_remote_image E src_abs orig_dir w of
              (Inl e, w') \<Rightarrow> (Inl e, w')
            | (Inr r, w') \<Rightarrow> (Inr (Some r), w'))
      else
        let c1 = normpath (join doc_dir src_abs);
            local_candidate =
              (if path_exists w c1 then c1
               else join dist_root (lstrip (\<lambda>c. c = CHR ''/'') src_abs))
        in if path_exists w local_candidate
           then (case import_local_image E local_candidate orig_dir w of
                   (Inl e, w') \<Rightarrow> (Inl e, w')
                 | (Inr r, w') \<Rightarrow> (Inr (Some r), w'))
           else (Inr None, w))"

definition scheme_relative :: "string \<Rightarrow> string" where
  "scheme_relative src = (if startswith src ''//'' then ''https:'' @ src else src)"

definition orig_dir_of :: "config \<Rightarrow> path \<Rightarrow> path" where
  "orig_dir_of cfg dist_root = join (join dist_root (image_dir cfg)) ''original''"

definition var_dir_of :: "config \<Rightarrow> path \<Rightarrow> path" where
  "var_dir_of cfg dist_root = join (join dist_root (image_dir cfg)) ''responsive''"

text \<open>\<^verbatim>\<open>re.search\<close>: the first position of the string at which the pattern matches.\<close>

fun re_search :: "(string \<Rightarrow> 'a option) \<Rightarrow> string \<Rightarrow> 'a option" where
  "re_search f [] = f []"
| "re_search f (c # cs) = (case f (c # cs) of Some r \<Rightarrow> Some r | None \<Rightarrow> re_search f cs)"

text \<open>
  The pattern \<^verbatim>\<open>-(\d+)w\.[^.]+$\<close> of the HTML rewriter, matched at the head of a string;
  the result is \<^verbatim>\<open>int(m.group(1))\<close>.
\<close>

definition html_pat :: "string \<Rightarrow> int option" where
  "html_pat s =
     (case s of
        [] \<Rightarrow> None
      | c # cs \<Rightarrow>
          let ds = takeWhile is_digit cs; r = dropWhile is_digit cs
          in if c = CHR ''-'' \<and> ds \<noteq> [] \<and> startswith r ''w.'' \<and> drop 2 r \<noteq> []
                \<and> CHR ''.'' \<notin> set (drop 2 r)
             then Some (parse_int ds) else None)"

definition html_pairs :: "path list \<Rightarrow> (int \<times> path) list" where
  "html_pairs ps =
     List.map_filter (\<lambda>p. map_option (\<lambda>n. (n, p)) (re_search html_pat (basename p))) ps"

definition process_one_image_url ::
  "env \<Rightarrow> config \<Rightarrow> path \<Rightarrow> path \<Rightarrow> string \<Rightarrow> world \<Rightarrow>
   (error + (int \<times> path) list option) \<times> world"
where
  "process_one_image_url E cfg dist_root html_dir src w =
     (case ingest E dist_root html_dir (orig_dir_of cfg dist_root) (scheme_relative src) w of
        (Inl e, w1) \<Rightarrow> (Inl e, w1)
      | (Inr None, w1) \<Rightarrow> (Inr None, w1)
      | (Inr (Some (downloaded, h)), w1) \<Rightarrow>
          (case ensure_variants_with_cache E downloaded h (var_dir_of cfg dist_root)
                  (image_variants cfg) (image_format cfg) (quality cfg) w1 of
             (Inl e, w2) \<Rightarrow> (Inl e, w2)
           | (Inr variant_paths, w2) \<Rightarrow>
               if variant_paths = [] then (Inr None, w2)
               else (Inr (Some (sort_key fst (html_pairs variant_paths))), w2)))"

subsection \<open>HTML rewriter\<close>

text \<open>
  A document is the sequence of its elements in document order, each with its tag name
  and its attributes, as \<^verbatim>\<open>soup.find_all\<close> walks them. Parsing the file and
  \<^verbatim>\<open>prettify\<close> are outside the model: \<^verbatim>\<open>rewrite_img_tags\<close> returns the rewritten
  elements and the flag \<^verbatim>\<open>changed\<close> that decides whether the file is written back.
\<close>

record element =
  tag :: string
  attrs :: "string \<rightharpoonup> string"

fun srcset_parts :: "env \<Rightarrow> path \<Rightarrow> (int \<times> path) list \<Rightarrow> error + string list" where
  "srcset_parts E html_dir [] = Inr []"
| "srcset_parts E html_dir ((n, p) # ps) =
     (case rel_quoted E p html_dir of
        Inl e \<Rightarrow> Inl e
      | Inr relv \<Rightarrow>
          (case srcset_parts E html_dir ps of
             Inl e \<Rightarrow> Inl e
           | Inr parts \<Rightarrow> Inr ((relv @ '' '' @ show_int n @ ''w'') # parts)))"

definition default_sizes :: string where
  "default_sizes = ''(max-width: 1200px) 100vw, 1200px''"

text \<open>\<^verbatim>\<open>not img.get(k)\<close>: the attribute is absent or empty.\<close>

definition falsy :: "string option \<Rightarrow> bool" where
  "falsy v = (case v of None \<Rightarrow> True | Some s \<Rightarrow> s = [])"

text \<open>The body of the loop \<^verbatim>\<open>for img in soup.find_all("img")\<close>, for one element.\<close>

definition rewrite_img ::
  "env \<Rightarrow> config \<Rightarrow> path \<Rightarrow> path \<Rightarrow> element \<Rightarrow> world \<Rightarrow> (error + element \<times> bool) \<times> world"
where
  "rewrite_img E cfg dist_root html_dir img w =
     (if \<not> download_images cfg \<or> falsy (attrs img ''src'') then (Inr (img, False), w)
      else
        case process_one_image_url E cfg dist_root html_dir (the (attrs img ''src'')) w of
          (Inl e, w') \<Rightarrow> (Inl e, w')
        | (Inr None, w') \<Rightarrow> (Inr (img, False), w')
        | (Inr (Some pairs), w') \<Rightarrow>
            if pairs = [] then (Inr (img, False), w')
            else
              let mid = snd (pairs ! min (length pairs div 2) (length pairs - 1))
              in case rel_quoted E mid html_dir of
                   Inl e \<Rightarrow> (Inl e, w')
                 | Inr src_rel \<Rightarrow>
                     (case srcset_parts E html_dir pairs of
                        Inl e \<Rightarrow> (Inl e, w')
                      | Inr parts \<Rightarrow>
                          let a1 = (attrs img)(''src'' \<mapsto> src_rel, ''srcset'' \<mapsto> join_with '', '' parts);
                              a2 = (if falsy (a1 ''sizes'') then a1(''sizes'' \<mapsto> default_sizes) else a1)
                          in (Inr (img\<lparr>attrs := a2\<rparr>, True), w')))"

text \<open>The body of the loop \<^verbatim>\<open>for source in soup.find_all("source")\<close>.\<close>

definition first_candidate :: "string \<Rightarrow> string" where
  "first_candidate srcset = strip is_space (hd (split_on CHR '','' srcset))"

definition rewrite_source ::
  "env \<Rightarrow> config \<Rightarrow> path \<Rightarrow> path \<Rightarrow> element \<Rightarrow> world \<Rightarrow> (error + element \<times> bool) \<times> world"
where
  "rewrite_source E cfg dist_root html_dir source w =
     (if \<not> download_images cfg \<or> falsy (attrs source ''srcset'') then (Inr (source, False), w)
      else
        let first = first_candidate (the (attrs source ''srcset''))
        in if first = [] then (Inr (source, False), w)
           else
             case process_one_image_url E cfg dist_root html_dir
                    (takeWhile (\<lambda>c. \<not> is_space c) first) w of
               (Inl e, w') \<Rightarrow> (Inl e, w')
             | (Inr None, w') \<Rightarrow> (Inr (source, False), w')
             | (Inr (Some pairs), w') \<Rightarrow>
                 if pairs = [] then (Inr (source, False), w')
                 else
                   (case srcset_parts E html_dir pairs of
                      Inl e \<Rightarrow> (Inl e, w')
                    | Inr parts \<Rightarrow>
                        (Inr (source\<lparr>attrs := (attrs source)(''srcset'' \<mapsto> join_with '', '' parts)\<rparr>,
                              True), w')))"

text \<open>
  One \<^verbatim>\<open>for\<close> loop over the elements of a tag name. An exception leaves the loop: the
  elements after it are not visited.
\<close>

fun rewrite_elems ::
  "(element \<Rightarrow> world \<Rightarrow> (error + element \<times> bool) \<times> world) \<Rightarrow> string \<Rightarrow> element list \<Rightarrow> world \<Rightarrow>
   (error + element list \<times> bool) \<times> world"
where
  "rewrite_elems body name [] w = (Inr ([], False), w)"
| "rewrite_elems body name (x # xs) w =
     (case (if tag x = name then body x w else (Inr (x, False), w)) of
        (Inl e, w1) \<Rightarrow> (Inl e, w1)
      | (Inr (x', c1), w1) \<Rightarrow>
          (case rewrite_elems body name xs w1 of
             (Inl e, w2) \<Rightarrow> (Inl e, w2)
           | (Inr (xs', c2), w2) \<Rightarrow> (Inr (x' # xs', c1 \<or> c2), w2)))"

definition rewrite_img_tags ::
  "env \<Rightarrow> config \<Rightarrow> path \<Rightarrow> path \<Rightarrow> element list \<Rightarrow> world \<Rightarrow>
   (error + element list \<times> bool) \<times> world"
where
  "rewrite_img_tags E cfg dist_root html_dir doc w =
     (case rewrite_elems (rewrite_img E cfg dist_root html_dir) ''img'' doc w of
        (Inl e, w1) \<Rightarrow> (Inl e, w1)
      | (Inr (doc1, c1), w1) \<Rightarrow>
          (case rewrite_elems (rewrite_source E cfg dist_root html_dir) ''source'' doc1 w1 of
             (Inl e, w2) \<Rightarrow> (Inl e, w2)
           | (Inr (doc2, c2), w2) \<Rightarrow> (Inr (doc2, c1 \<or> c2), w2)))"

subsection \<open>CSS rewriter\<close>

text \<open>
  The pattern \<^verbatim>\<open>-(\d+)w\.\<close> of \<^verbatim>\<open>width_of\<close>, matched at the head of a string, and
  \<^verbatim>\<open>width_of\<close> itself.
\<close>

definition css_pat :: "string \<Rightarrow> int option" where
  "css_pat s =
     (case s of
        [] \<Rightarrow> None
      | c # cs \<Rightarrow>
          let ds = takeWhile is_digit cs; r = dropWhile is_digit cs
          in if c = CHR ''-'' \<and> ds \<noteq> [] \<and> startswith r ''w.''
             then Some (parse_int ds) else None)"

definition width_of :: "path \<Rightarrow> int" where
  "width_of p = (case re_search css_pat (basename p) of Some n \<Rightarrow> n | None \<Rightarrow> 0)"

text \<open>\<^verbatim>\<open>max(xs, key=f)\<close> of a list with head \<open>x\<close>: the first element of the largest key.\<close>

definition max_by :: "('a \<Rightarrow> int) \<Rightarrow> 'a \<Rightarrow> 'a list \<Rightarrow> 'a" where
  "max_by f x xs = foldl (\<lambda>best y. if f best < f y then y else best) x xs"

text \<open>
  A match of \<^verbatim>\<open>CSS_URL_RE\<close>: \<open>whole\<close> is \<^verbatim>\<open>m.group(0)\<close> and \<open>target\<close> is
  \<^verbatim>\<open>m.group(2)\<close>.
\<close>

record css_match =
  whole :: string
  target :: string

text \<open>The \<^verbatim>\<open>try\<close> block of \<^verbatim>\<open>repl\<close>.\<close>

definition css_try ::
  "env \<Rightarrow> config \<Rightarrow> path \<Rightarrow> path \<Rightarrow> css_match \<Rightarrow> world \<Rightarrow> (error + string) \<times> world"
where
  "css_try E cfg dist_root css_dir m w =
     (case ingest E dist_root css_dir (orig_dir_of cfg dist_root) (scheme_relative (target m)) w of
        (Inl e, w1) \<Rightarrow> (Inl e, w1)
      | (Inr None, w1) \<Rightarrow> (Inr (whole m), w1)
      | (Inr (Some (downloaded, h)), w1) \<Rightarrow>
          (case ensure_variants_with_cache E downloaded h (var_dir_of cfg dist_root)
                  (image_variants cfg) (image_format cfg) (quality cfg) w1 of
             (Inl e, w2) \<Rightarrow> (Inl e, w2)
           | (Inr [], w2) \<Rightarrow> (Inr (whole m), w2)
           | (Inr (p # ps), w2) \<Rightarrow>
               (case rel_quoted E (max_by width_of p ps) css_dir of
                  Inl e \<Rightarrow> (Inl e, w2)
                | Inr relv \<Rightarrow> (Inr (''url('' @ relv @ '')''), w2))))"

text \<open>\<^verbatim>\<open>repl\<close>: any exception of the \<^verbatim>\<open>try\<close> block gives the match back unchanged.\<close>

definition css_repl ::
  "env \<Rightarrow> config \<Rightarrow> path \<Rightarrow> path \<Rightarrow> css_match \<Rightarrow> world \<Rightarrow> string \<times> world"
where
  "css_repl E cfg dist_root css_dir m w =
     (case css_try E cfg dist_root css_dir m w of
        (Inl e, w') \<Rightarrow> (whole m, w')
      | (Inr s, w') \<Rightarrow> (s, w'))"

text \<open>
  \<^verbatim>\<open>CSS_URL_RE\<close>, the pattern \<^verbatim>\<open>url\((["']?)([^\)\s]+)\1\)\<close>, matched at the head of a
  string: the match and the number of characters after the first that it takes. The
  quoted reading is tried first, as the greedy optional group does.
\<close>

definition css_token_char :: "char \<Rightarrow> bool" where
  "css_token_char c = (c \<noteq> CHR 0x29 \<and> \<not> is_space c)"

definition css_url_at :: "string \<Rightarrow> (css_match \<times> nat) option" where
  "css_url_at s =
     (if startswith s ''url('' then
        let r = drop 4 s;
            quoted =
              (case r of
                 [] \<Rightarrow> None
               | q # r' \<Rightarrow>
                   let body = takeWhile css_token_char r'
                   in if (q = CHR 0x22 \<or> q = CHR 0x27) \<and> 2 \<le> length body \<and> last body = q
                         \<and> startswith (drop (length body) r') '')''
                      then Some (butlast body, 6 + length body) else None);
            body = takeWhile css_token_char r
        in case quoted of
             Some (t, n) \<Rightarrow> Some (\<lparr>whole = take n s, target = t\<rparr>, n - 1)
           | None \<Rightarrow>
               if body \<noteq> [] \<and> startswith (drop (length body) r) '')''
               then Some (\<lparr>whole = take (5 + length body) s, target = body\<rparr>, 4 + length body)
               else None
      else None)"

text \<open>\<^verbatim>\<open>CSS_URL_RE.sub(repl, css)\<close>: the matches from left to right, without overlap.\<close>

function css_sub ::
  "(css_match \<Rightarrow> world \<Rightarrow> string \<times> world) \<Rightarrow> string \<Rightarrow> world \<Rightarrow> string \<times> world"
where
  "css_sub f [] w = ([], w)"
| "css_sub f (c # cs) w =
     (case css_url_at (c # cs) of
        None \<Rightarrow> (case css_sub f cs w of (r, w') \<Rightarrow> (c # r, w'))
      | Some (m, k) \<Rightarrow>
          (case f m w of
             (s, w1) \<Rightarrow> (case css_sub f (drop k cs) w1 of (r, w2) \<Rightarrow> (s @ r, w2))))"
  by pat_completeness auto
termination
  by (relation "measure (\<lambda>(f, s, w). length s)") auto

definition rewrite_css_urls :: "env \<Rightarrow> config \<Rightarrow> path \<Rightarrow> path \<Rightarrow> world \<Rightarrow> (error + unit) \<times> world" where
  "rewrite_css_urls E cfg dist_root file_path w =
     (case files w file_path of
        None \<Rightarrow> (Inl FileNotFound, w)
      | Some css \<Rightarrow>
          (case css_sub (css_repl E cfg dist_root (dirname file_path)) css w of
             (new_css, w') \<Rightarrow>
               (Inr (), if new_css = css then w'
                        else w'\<lparr>files := (files w')(file_path \<mapsto> new_css)\<rparr>)))"

subsection \<open>Copying the input tree\<close>

definition is_under :: "path \<Rightarrow> path \<Rightarrow> bool" where
  "is_under d p = startswith p (d @ ''/'')"

text \<open>
  \<^verbatim>\<open>shutil.rmtree(outdir)\<close> removes every file under \<open>outdir\<close>; \<^verbatim>\<open>shutil.copytree(src,
  outdir)\<close> puts every file under \<open>src\<close> at the same relative place under \<open>outdir\<close>.
  The source is taken to be an existing directory when it is not a zip file.
\<close>

definition rmtree :: "path \<Rightarrow> (path \<rightharpoonup> bytes) \<Rightarrow> (path \<rightharpoonup> bytes)" where
  "rmtree d fs = (\<lambda>p. if is_under d p then None else fs p)"

definition copytree :: "path \<Rightarrow> path \<Rightarrow> (path \<rightharpoonup> bytes) \<Rightarrow> (path \<rightharpoonup> bytes)" where
  "copytree src dst fs = (\<lambda>p. if is_under dst p then fs (src @ drop (length dst) p) else fs p)"

definition extractall :: "path \<Rightarrow> (path \<times> bytes) list \<Rightarrow> (path \<rightharpoonup> bytes) \<Rightarrow> (path \<rightharpoonup> bytes)" where
  "extractall dst ms fs = foldl (\<lambda>g (n, d). g(join dst n \<mapsto> d)) fs ms"

definition copy_src :: "env \<Rightarrow> path \<Rightarrow> path \<Rightarrow> world \<Rightarrow> (error + unit) \<times> world" where
  "copy_src E src outdir w =
     (if endswith (lower src) ''.zip'' \<and> path_exists w src
      then (case zip_members E (the (files w src)) of
              None \<Rightarrow> (Inl ValueError, w)
            | Some ms \<Rightarrow> (Inr (), w\<lparr>files := extractall outdir ms (files w)\<rparr>))
      else (Inr (), w\<lparr>files := copytree src outdir (rmtree outdir (files w))\<rparr>))"

subsection \<open>A concrete site\<close>

text \<open>
  An environment and a state at which the theorems below are instantiated: a site under
  \<^verbatim>\<open>/site\<close> with two images of 1000 by 500 pixels that hold the same bytes, a third
  copy whose name contains \<^verbatim>\<open>-1200w.\<close>, a logo of 300 by 200 pixels whose name has no
  extension, and a text file that is not an image. \<open>ex_sha1\<close> gives the SHA-1 digests
  of the contents used. One remote image can be fetched; every other request fails.
\<close>

definition ex_sha1 :: "bytes \<Rightarrow> string" where
  "ex_sha1 b =
     (if b = ''IMG'' then ''78c66aed78ee464669ca5e1d478a4d3702e23ab3''
      else if b = ''ICON'' then ''b319fc46fbfeaf695aeda7bddd0440e76e2dbefb''
      else ''da39a3ee5e6b4b0d3255bfef95601890afd80709'')"

definition ex_manifest_text :: bytes where
  "ex_manifest_text = ''{'' @ [CHR 0x22] @ ''images'' @ [CHR 0x22] @ '': {}}''"

definition ex_env :: env where
  "ex_env =
     \<lparr>http_get = (\<lambda>u. if u = ''https://cdn.example.com/a/hero.jpg'' then Some ''IMG'' else None),
      sha1_hex = ex_sha1,
      url_path = (\<lambda>u. if u = ''https://cdn.example.com/a/hero.jpg'' then ''/a/hero.jpg'' else []),
      image_size = (\<lambda>b. if b = ''IMG'' then Some (1000, 500)
                         else if b = ''ICON'' then Some (300, 200) else None),
      pil_save = (\<lambda>d sz out fmt q. Some (fmt @ '':'' @ d)),
      clock = 1700000000,
      cwd = ''/work'',
      json_load = (\<lambda>t. if t = ex_manifest_text then Some Map.empty else None),
      zip_members = (\<lambda>b. None)\<rparr>"

definition ex_files :: "path \<rightharpoonup> bytes" where
  "ex_files =
     [''/site/img/hero.jpg'' \<mapsto> ''IMG'',
      ''/site/img/banner.jpg'' \<mapsto> ''IMG'',
      ''/site/img/hero-1200w.v2.jpg'' \<mapsto> ''IMG'',
      ''/site/logo'' \<mapsto> ''ICON'',
      ''/site/notes.txt'' \<mapsto> ''TXT'',
      ''/site/css/main.css'' \<mapsto> ''body{background:url(../img/hero-1200w.v2.jpg)}'']"

definition ex_world :: world where
  "ex_world = \<lparr>files = ex_files, manifest = Map.empty, gen_calls = 0\<rparr>"

definition ex_cfg :: config where
  "ex_cfg =
     \<lparr>download_images = True, image_dir = ''images'',
      image_variants = [480, 800, 1200, 1600, 2000], image_format = ''webp'', quality = 82\<rparr>"

text \<open>The same site with a manifest entry whose recorded files exist.\<close>

definition ex_world_cached :: world where
  "ex_world_cached =
     ex_world\<lparr>manifest := [''78c66aed78ee'' \<mapsto>
        \<lparr>original = ''/site/images/original/78c66aed78ee-hero.jpg'',
         variants = [''/site/img/hero.jpg'', ''/site/img/banner.jpg''], ts = 1600000000\<rparr>]\<rparr>"

text \<open>
  The two ingestion functions under one name, for statements about both: an origin is a
  remote URL or a local path. \<open>origin_bytes\<close> is the raw content that ingestion reads and
  \<open>origin_name\<close> the file name that it slugifies.
\<close>

datatype origin = Remote string | Local path

definition ingest_from ::
  "env \<Rightarrow> origin \<Rightarrow> path \<Rightarrow> world \<Rightarrow> (error + path \<times> string) \<times> world"
where
  "ingest_from E src dest_dir w =
     (case src of
        Remote url \<Rightarrow> download_remote_image E url dest_dir w
      | Local p \<Rightarrow> import_local_image E p dest_dir w)"

definition origin_bytes :: "env \<Rightarrow> world \<Rightarrow> origin \<Rightarrow> bytes option" where
  "origin_bytes E w src = (case src of Remote url \<Rightarrow> http_get E url | Local p \<Rightarrow> files w p)"

definition origin_name :: "env \<Rightarrow> origin \<Rightarrow> string" where
  "origin_name E src = (case src of Remote url \<Rightarrow> filename_from_url E url | Local p \<Rightarrow> basename p)"

text \<open>
  The configuration that keeps the original format, and an element that refers to the
  logo without extension.
\<close>

definition ex_cfg_keep :: config where
  "ex_cfg_keep = ex_cfg\<lparr>image_format := ''keep''\<rparr>"

definition ex_logo_img :: element where
  "ex_logo_img = \<lparr>tag = ''img'', attrs = [''src'' \<mapsto> ''logo'', ''alt'' \<mapsto> ''Logo'']\<rparr>"

text \<open>Two elements that refer to the first image; the second has an empty \<^verbatim>\<open>sizes\<close>.\<close>

definition ex_hero_img :: element where
  "ex_hero_img = \<lparr>tag = ''img'', attrs = [''src'' \<mapsto> ''img/hero.jpg'']\<rparr>"

definition ex_hero_img_sizes :: element where
  "ex_hero_img_sizes = \<lparr>tag = ''img'', attrs = [''src'' \<mapsto> ''img/hero.jpg'', ''sizes'' \<mapsto> []]\<rparr>"

text \<open>
  An element whose remote source cannot be fetched, one whose local source is not an
  image, and the input tree of the site before it is copied to \<^verbatim>\<open>/site\<close>.
\<close>

definition ex_remote_img :: element where
  "ex_remote_img = \<lparr>tag = ''img'', attrs = [''src'' \<mapsto> ''https://cdn.example.com/photo.png'']\<rparr>"

definition ex_notes_img :: element where
  "ex_notes_img = \<lparr>tag = ''img'', attrs = [''src'' \<mapsto> ''notes.txt'']\<rparr>"

definition ex_input :: world where
  "ex_input = \<lparr>files = [''/input/img/hero.jpg'' \<mapsto> ''IMG''], manifest = Map.empty, gen_calls = 0\<rparr>"

text \<open>
  The steps of \<^verbatim>\<open>main\<close> that touch images, for the directory \<^verbatim>\<open>/input\<close> whose one page
  holds the element \<open>ex_hero_img\<close>: \<^verbatim>\<open>copy_src\<close>, then \<^verbatim>\<open>rewrite_img_tags\<close>. The manifest
  of the state stands for the manifest file, which \<^verbatim>\<open>main\<close> loads before it copies and
  saves at its end.
\<close>

definition ex_run :: "world \<Rightarrow> world" where
  "ex_run w =
     snd (rewrite_img_tags ex_env ex_cfg ''/site'' ''/site'' [ex_hero_img]
            (snd (copy_src ex_env ''/input'' ''/site'' w)))"

section \<open>Properties\<close>

subsection \<open>The ladder of widths\<close>

lemma map_insort_key: "map f (insort_key f x xs) = insort (f x) (map f xs)"
  by (induction xs) simp_all

lemma map_sort_key: "map f (sort_key f xs) = sort (map f xs)"
  by (induction xs) (simp_all add: map_insort_key)

lemma variants_loop_widths:
  "variants_loop E im sz out_dir stem ext q ws acc fs = (Inr vs, fs') \<Longrightarrow>
   map fst vs = map fst acc @ filter (\<lambda>t. t < fst sz) ws"
proof (induction ws arbitrary: acc fs)
  case Nil
  then show ?case by simp
next
  case (Cons t ws)
  show ?case
  proof (cases "fst sz \<le> t")
    case True
    with Cons.prems have "variants_loop E im sz out_dir stem ext q ws acc fs = (Inr vs, fs')"
      by simp
    from Cons.IH [OF this] True show ?thesis by simp
  next
    case False
    with Cons.prems obtain b where
      b: "pil_save E im (Some (t, variant_height (snd sz) (fst sz) t))
            (join out_dir (variant_name stem t ext)) (pil_format_for ext) (save_kwargs ext q) = Some b"
      and rest: "variants_loop E im sz out_dir stem ext q ws
            (acc @ [(t, join out_dir (variant_name stem t ext))])
            (fs(join out_dir (variant_name stem t ext) \<mapsto> b)) = (Inr vs, fs')"
      by (auto simp: Let_def split: if_splits option.splits)
    from Cons.IH [OF rest] False show ?thesis by simp
  qed
qed

lemma make_variants_widths:
  assumes "make_variants E img_path out_dir widths fmt q w = (Inr vs, w')"
    and "files w img_path = Some im" and "image_size E im = Some (iw, ih)"
  shows "map fst vs = sort (filter (\<lambda>t. t < iw) widths @ [iw])"
proof -
  from assms obtain us fs where
    loop: "variants_loop E im (iw, ih) out_dir
             (slugify_name (fst (splitext (basename img_path))))
             (if fmt = ''keep'' then lstrip (\<lambda>c. c = CHR ''.'') (snd (splitext img_path)) else fmt)
             q widths [] (files w) = (Inr us, fs)"
    and vs: "vs = sort_key fst (us @ [(iw,
               join out_dir (variant_name (slugify_name (fst (splitext (basename img_path)))) (iw)
                 (if fmt = ''keep'' then lstrip (\<lambda>c. c = CHR ''.'') (snd (splitext img_path)) else fmt)))])"
    by (auto simp: make_variants_def Let_def split: option.splits prod.splits sum.splits if_splits)
  from variants_loop_widths [OF loop] have "map fst us = filter (\<lambda>t. t < iw) widths"
    by simp
  then show ?thesis
    unfolding vs by (simp add: map_sort_key)
qed

text \<open>
  Claim C7. When \<^verbatim>\<open>make_variants\<close> succeeds on an image of natural width \<open>iw\<close> and the
  requested widths are strictly ascending, the widths of the returned pairs are the
  requested widths below \<open>iw\<close>, in their order, followed by \<open>iw\<close>: they are strictly
  ascending, a requested width of \<open>iw\<close> or more contributes no entry, and the last
  width is \<open>iw\<close>. For the widths 480, 800, 1200, 1600, 2000 and natural width 1000 the
  ladder is 480, 800, 1000.
\<close>

theorem make_variants_ladder:
  assumes "make_variants E img_path out_dir widths fmt q w = (Inr vs, w')"
    and "files w img_path = Some im" and "image_size E im = Some (iw, ih)"
    and "sorted_wrt (<) widths"
  shows "map fst vs = filter (\<lambda>t. t < iw) widths @ [iw] \<and>
         sorted_wrt (<) (map fst vs) \<and>
         fst (last vs) = iw \<and>
         (widths = [480, 800, 1200, 1600, 2000] \<and> iw = 1000 \<longrightarrow> map fst vs = [480, 800, 1000])"
proof -
  let ?small = "filter (\<lambda>t. t < iw) widths"
  have strict: "sorted_wrt (<) (?small @ [iw])"
    using assms(4) by (auto simp: sorted_wrt_append sorted_wrt_filter)
  then have "sorted (?small @ [iw])"
    by (simp add: strict_sorted_iff)
  then have "sort (?small @ [iw]) = ?small @ [iw]"
    by (rule sorted_sort_id)
  with make_variants_widths [OF assms(1-3)] have eq: "map fst vs = ?small @ [iw]"
    by simp
  then have "vs \<noteq> []" by auto
  then have "fst (last vs) = last (map fst vs)"
    by (simp add: last_map)
  with eq have lst: "fst (last vs) = iw" by simp
  have ex: "widths = [480, 800, 1200, 1600, 2000] \<and> iw = 1000 \<longrightarrow> map fst vs = [480, 800, 1000]"
    using eq by simp
  from eq strict lst ex show ?thesis by simp
qed

theorem make_variants_ladder_witness:
  "map fst (projr (fst (make_variants ex_env ''/site/img/hero.jpg'' ''/site/images/responsive''
      [480, 800, 1200, 1600, 2000] ''webp'' 82 ex_world)))
   = [480, 800, 1000]"
proof -
  let ?run = "make_variants ex_env ''/site/img/hero.jpg'' ''/site/images/responsive''
      [480, 800, 1200, 1600, 2000] ''webp'' 82 ex_world"
  obtain r w' where run: "?run = (r, w')"
    by (cases ?run)
  have "isl (fst ?run) = False"
    by code_simp
  with run obtain vs where r: "r = Inr vs" by (cases r) auto
  have f: "files ex_world ''/site/img/hero.jpg'' = Some ''IMG''"
    by code_simp
  have s: "image_size ex_env ''IMG'' = Some (1000, 500)"
    by code_simp
  have "sorted_wrt (<) [480, 800, 1200, 1600, 2000 :: int]" by simp
  from make_variants_ladder [OF run [unfolded r] f s this] have "map fst vs = [480, 800, 1000]"
    by simp
  with run r show ?thesis by simp
qed

subsection \<open>The manifest cache\<close>

lemma make_variants_counts:
  "gen_calls (snd (make_variants E img_path out_dir widths fmt q w)) = Suc (gen_calls w)"
  by (simp add: make_variants_def Let_def split: option.splits prod.splits sum.splits)

lemma cache_hit_iff:
  "cache_hit w h \<longleftrightarrow> (\<exists>e. manifest w h = Some e \<and> (\<forall>p \<in> set (variants e). files w p \<noteq> None))"
  by (auto simp: cache_hit_def path_exists_def list_all_iff split: option.splits)

text \<open>
  Claim C5. \<^verbatim>\<open>ensure_variants_with_cache\<close> returns the recorded variant paths, with the
  state unchanged, when the content hash is in the manifest and every recorded path
  exists; otherwise it runs \<^verbatim>\<open>make_variants\<close> and, when that succeeds, records the new
  paths with the time stamp under the hash and returns them. The generator is not
  invoked (its call counter is unchanged) exactly in the first case.
\<close>

theorem ensure_variants_with_cache_hit_or_miss:
  "(if \<exists>e. manifest w h = Some e \<and> (\<forall>p \<in> set (variants e). files w p \<noteq> None)
    then ensure_variants_with_cache E d h var_dir widths fmt q w
         = (Inr (variants (the (manifest w h))), w)
    else ensure_variants_with_cache E d h var_dir widths fmt q w
         = (case make_variants E d var_dir widths fmt q w of
              (Inl x, w') \<Rightarrow> (Inl x, w')
            | (Inr pairs, w') \<Rightarrow>
                (Inr (map snd pairs),
                 w'\<lparr>manifest := (manifest w')(h \<mapsto>
                      \<lparr>original = d, variants = map snd pairs, ts = clock E\<rparr>)\<rparr>)))
   \<and> (gen_calls (snd (ensure_variants_with_cache E d h var_dir widths fmt q w)) = gen_calls w
        \<longleftrightarrow> (\<exists>e. manifest w h = Some e \<and> (\<forall>p \<in> set (variants e). files w p \<noteq> None)))"
proof -
  let ?hit = "\<exists>e. manifest w h = Some e \<and> (\<forall>p \<in> set (variants e). files w p \<noteq> None)"
  let ?run = "ensure_variants_with_cache E d h var_dir widths fmt q w"
  let ?gen = "case make_variants E d var_dir widths fmt q w of
              (Inl x, w') \<Rightarrow> (Inl x, w')
            | (Inr pairs, w') \<Rightarrow>
                (Inr (map snd pairs),
                 w'\<lparr>manifest := (manifest w')(h \<mapsto>
                      \<lparr>original = d, variants = map snd pairs, ts = clock E\<rparr>)\<rparr>)"
  show ?thesis
  proof (cases ?hit)
    case True
    have "cache_hit w h" unfolding cache_hit_iff by (rule True)
    then have eq: "?run = (Inr (variants (the (manifest w h))), w)"
      by (simp add: ensure_variants_with_cache_def)
    then have g: "gen_calls (snd ?run) = gen_calls w" by simp
    have c1: "if ?hit then ?run = (Inr (variants (the (manifest w h))), w) else ?run = ?gen"
      by (subst if_P [OF True]) (rule eq)
    have c2: "gen_calls (snd ?run) = gen_calls w \<longleftrightarrow> ?hit"
      using True g by blast
    from c1 c2 show ?thesis by (rule conjI)
  next
    case False
    have "\<not> cache_hit w h" unfolding cache_hit_iff by (rule False)
    then have eq: "?run = ?gen"
      by (simp add: ensure_variants_with_cache_def Let_def split: prod.splits sum.splits)
    have "gen_calls (snd ?gen) = Suc (gen_calls w)"
      using make_variants_counts [of E d var_dir widths fmt q w]
      by (auto split: prod.splits sum.splits)
    with eq have g: "gen_calls (snd ?run) \<noteq> gen_calls w" by simp
    have c1: "if ?hit then ?run = (Inr (variants (the (manifest w h))), w) else ?run = ?gen"
      by (subst if_not_P [OF False]) (rule eq)
    have c2: "gen_calls (snd ?run) = gen_calls w \<longleftrightarrow> ?hit"
      using False g by blast
    from c1 c2 show ?thesis by (rule conjI)
  qed
qed

theorem ensure_variants_with_cache_witness:
  "ensure_variants_with_cache ex_env ''/site/images/original/78c66aed78ee-hero.jpg''
     ''78c66aed78ee'' ''/site/images/responsive'' [480, 800] ''webp'' 82 ex_world_cached
   = (Inr [''/site/img/hero.jpg'', ''/site/img/banner.jpg''], ex_world_cached)
   \<and> gen_calls (snd (ensure_variants_with_cache ex_env ''/site/img/hero.jpg''
     ''78c66aed78ee'' ''/site/images/responsive'' [480, 800] ''webp'' 82 ex_world)) \<noteq> gen_calls ex_world"
proof -
  have m: "manifest ex_world_cached ''78c66aed78ee'' = Some
        \<lparr>original = ''/site/images/original/78c66aed78ee-hero.jpg'',
         variants = [''/site/img/hero.jpg'', ''/site/img/banner.jpg''], ts = 1600000000\<rparr>"
    by (simp add: ex_world_cached_def)
  have f: "files ex_world_cached ''/site/img/hero.jpg'' = Some ''IMG''"
      "files ex_world_cached ''/site/img/banner.jpg'' = Some ''IMG''"
    by (simp_all add: ex_world_cached_def ex_world_def ex_files_def)
  have n: "manifest ex_world ''78c66aed78ee'' = None"
    by (simp add: ex_world_def)
  have hit: "ensure_variants_with_cache ex_env ''/site/images/original/78c66aed78ee-hero.jpg''
     ''78c66aed78ee'' ''/site/images/responsive'' [480, 800] ''webp'' 82 ex_world_cached
   = (Inr [''/site/img/hero.jpg'', ''/site/img/banner.jpg''], ex_world_cached)"
    using ensure_variants_with_cache_hit_or_miss [of ex_world_cached "''78c66aed78ee''" ex_env
        "''/site/images/original/78c66aed78ee-hero.jpg''" "''/site/images/responsive''"
        "[480, 800]" "''webp''" 82]
    by (simp add: m f)
  have miss: "gen_calls (snd (ensure_variants_with_cache ex_env ''/site/img/hero.jpg''
     ''78c66aed78ee'' ''/site/images/responsive'' [480, 800] ''webp'' 82 ex_world)) \<noteq> gen_calls ex_world"
    using conjunct2 [OF ensure_variants_with_cache_hit_or_miss [of ex_world "''78c66aed78ee''" ex_env
        "''/site/img/hero.jpg''" "''/site/images/responsive''" "[480, 800]" "''webp''" 82]]
    by (simp add: n)
  from hit miss show ?thesis by simp
qed

subsection \<open>The content store\<close>

lemma ingest_from_result:
  assumes "ingest_from E src dest w = (Inr (out, h), w')"
  obtains d where "origin_bytes E w src = Some d"
    and "h = hash12 E d"
    and "out = join dest (h @ ''-'' @ slugify_name (origin_name E src))"
    and "w' = write_once out d w"
  using assms
  by (cases src)
     (auto simp: ingest_from_def origin_bytes_def origin_name_def download_remote_image_def
        import_local_image_def Let_def split: option.splits)

lemma join_same_dir:
  "join d (h @ ''-'' @ a) = join d (h @ ''-'' @ b) \<longleftrightarrow> a = b"
proof -
  have "startswith (h @ ''-'' @ a) ''/'' = startswith (h @ ''-'' @ b) ''/''"
    by (cases h) (simp_all add: startswith_def)
  then show ?thesis
    by (auto simp: join_def)
qed

lemma write_once_exists: "path_exists (write_once out d w) out"
  by (simp add: write_once_def path_exists_def)

lemma write_once_again: "path_exists w out \<Longrightarrow> write_once out d w = w"
  by (simp add: write_once_def)

text \<open>
  Claim C2, as amended. Two ingestions of the same bytes into one directory yield the same
  content hash. The stored path is the directory joined with the hash, a hyphen and the
  slugified file name of the source, so the two paths are equal exactly when the
  slugified names are. The stored original exists afterwards; ingestion changes nothing
  when its destination already exists, so a second ingestion to the same path rewrites
  nothing.
\<close>

theorem ingest_content_addressed:
  assumes "ingest_from E s1 dest w1 = (Inr (out1, h1), w1')"
    and "ingest_from E s2 dest w2 = (Inr (out2, h2), w2')"
    and "origin_bytes E w1 s1 = origin_bytes E w2 s2"
  shows "h1 = h2 \<and>
         (out1 = out2 \<longleftrightarrow> slugify_name (origin_name E s1) = slugify_name (origin_name E s2)) \<and>
         path_exists w1' out1 \<and>
         (path_exists w1 out1 \<longrightarrow> w1' = w1) \<and>
         (w2 = w1' \<and> out2 = out1 \<longrightarrow> w2' = w1')"
proof -
  from assms(1) obtain d1 where 1: "origin_bytes E w1 s1 = Some d1" "h1 = hash12 E d1"
      "out1 = join dest (h1 @ ''-'' @ slugify_name (origin_name E s1))"
      "w1' = write_once out1 d1 w1"
    by (rule ingest_from_result)
  from assms(2) obtain d2 where 2: "origin_bytes E w2 s2 = Some d2" "h2 = hash12 E d2"
      "out2 = join dest (h2 @ ''-'' @ slugify_name (origin_name E s2))"
      "w2' = write_once out2 d2 w2"
    by (rule ingest_from_result)
  from 1(1) 2(1) assms(3) have "d1 = d2" by simp
  with 1(2) 2(2) have h: "h1 = h2" by simp
  have o: "out1 = out2 \<longleftrightarrow> slugify_name (origin_name E s1) = slugify_name (origin_name E s2)"
    unfolding 1(3) 2(3) h by (rule join_same_dir)
  have e: "path_exists w1' out1"
    unfolding 1(4) by (rule write_once_exists)
  have k: "path_exists w1 out1 \<longrightarrow> w1' = w1"
    unfolding 1(4) by (simp add: write_once_again)
  have r: "w2 = w1' \<and> out2 = out1 \<longrightarrow> w2' = w1'"
    using e 2(4) by (auto simp: write_once_again)
  from h o e k r show ?thesis by simp
qed

theorem ingest_content_addressed_witness:
  "fst (ingest_from ex_env (Local ''/site/img/hero.jpg'') ''/site/images/original'' ex_world)
     = Inr (''/site/images/original/78c66aed78ee-hero.jpg'', ''78c66aed78ee'') \<and>
   ingest_from ex_env (Remote ''https://cdn.example.com/a/hero.jpg'') ''/site/images/original''
     (snd (ingest_from ex_env (Local ''/site/img/hero.jpg'') ''/site/images/original'' ex_world))
     = (Inr (''/site/images/original/78c66aed78ee-hero.jpg'', ''78c66aed78ee''),
        snd (ingest_from ex_env (Local ''/site/img/hero.jpg'') ''/site/images/original'' ex_world))"
proof -
  let ?d = "''/site/images/original''"
  let ?r1 = "ingest_from ex_env (Local ''/site/img/hero.jpg'') ?d ex_world"
  let ?r2 = "ingest_from ex_env (Remote ''https://cdn.example.com/a/hero.jpg'') ?d (snd ?r1)"
  have f1: "fst ?r1 = Inr (''/site/images/original/78c66aed78ee-hero.jpg'', ''78c66aed78ee'')"
    by code_simp
  have f2: "fst ?r2 = Inr (''/site/images/original/78c66aed78ee-hero.jpg'', ''78c66aed78ee'')"
    by code_simp
  have b: "origin_bytes ex_env ex_world (Local ''/site/img/hero.jpg'')
      = origin_bytes ex_env (snd ?r1) (Remote ''https://cdn.example.com/a/hero.jpg'')"
    by code_simp
  have 1: "?r1 = (Inr (''/site/images/original/78c66aed78ee-hero.jpg'', ''78c66aed78ee''), snd ?r1)"
    using f1 by (cases ?r1) simp
  have 2: "?r2 = (Inr (''/site/images/original/78c66aed78ee-hero.jpg'', ''78c66aed78ee''), snd ?r2)"
    using f2 by (cases ?r2) simp
  from ingest_content_addressed [OF 1 2 b] have "snd ?r2 = snd ?r1" by simp
  with 2 have "?r2 = (Inr (''/site/images/original/78c66aed78ee-hero.jpg'', ''78c66aed78ee''), snd ?r1)"
    by simp
  with f1 show ?thesis by simp
qed

text \<open>
  Claim C2 as stated fails: \<^verbatim>\<open>hero.jpg\<close> and \<^verbatim>\<open>banner.jpg\<close> hold the same bytes, and
  importing both leaves two stored originals under different paths.
\<close>

theorem same_bytes_two_originals:
  "files ex_world ''/site/img/hero.jpg'' = files ex_world ''/site/img/banner.jpg'' \<and>
   fst (import_local_image ex_env ''/site/img/hero.jpg'' ''/site/images/original'' ex_world)
     = Inr (''/site/images/original/78c66aed78ee-hero.jpg'', ''78c66aed78ee'') \<and>
   fst (import_local_image ex_env ''/site/img/banner.jpg'' ''/site/images/original''
          (snd (import_local_image ex_env ''/site/img/hero.jpg'' ''/site/images/original'' ex_world)))
     = Inr (''/site/images/original/78c66aed78ee-banner.jpg'', ''78c66aed78ee'') \<and>
   files (snd (import_local_image ex_env ''/site/img/banner.jpg'' ''/site/images/original''
          (snd (import_local_image ex_env ''/site/img/hero.jpg'' ''/site/images/original'' ex_world))))
      ''/site/images/original/78c66aed78ee-hero.jpg'' = Some ''IMG'' \<and>
   files (snd (import_local_image ex_env ''/site/img/banner.jpg'' ''/site/images/original''
          (snd (import_local_image ex_env ''/site/img/hero.jpg'' ''/site/images/original'' ex_world))))
      ''/site/images/original/78c66aed78ee-banner.jpg'' = Some ''IMG''"
  by code_simp

subsection \<open>Loading the manifest\<close>





subsection \<open>Variant paths that the HTML rewriter cannot read\<close>

lemma re_search_None: "re_search f s = None \<longleftrightarrow> (\<forall>pre suf. s = pre @ suf \<longrightarrow> f suf = None)"
proof (induction s)
  case Nil
  then show ?case by simp
next
  case (Cons c cs)
  show ?case
  proof
    assume a: "re_search f (c # cs) = None"
    then have h: "f (c # cs) = None" and t: "re_search f cs = None"
      by (auto split: option.splits)
    show "\<forall>pre suf. c # cs = pre @ suf \<longrightarrow> f suf = None"
    proof (intro allI impI)
      fix pre suf assume e: "c # cs = pre @ suf"
      show "f suf = None"
      proof (cases pre)
        case Nil
        with e h show ?thesis by simp
      next
        case (Cons p ps)
        with e have "cs = ps @ suf" by simp
        with t Cons.IH show ?thesis by blast
      qed
    qed
  next
    assume a: "\<forall>pre suf. c # cs = pre @ suf \<longrightarrow> f suf = None"
    then have h: "f (c # cs) = None" by (metis append_Nil)
    have "\<forall>pre suf. cs = pre @ suf \<longrightarrow> f suf = None"
      using a by (metis append_Cons)
    with Cons.IH have "re_search f cs = None" by simp
    with h show "re_search f (c # cs) = None" by simp
  qed
qed

lemma not_digit_w: "\<not> is_digit CHR ''w''"
  by (simp add: is_digit_def)

lemma startswith_iff: "startswith s p \<longleftrightarrow> (\<exists>t. s = p @ t)"
  unfolding startswith_def by (metis append_eq_conv_conj)

lemma html_pat_Some:
  "html_pat s = Some n \<longleftrightarrow>
     (\<exists>ds ext. s = ''-'' @ ds @ ''w.'' @ ext \<and> ds \<noteq> [] \<and> list_all is_digit ds \<and>
        ext \<noteq> [] \<and> CHR ''.'' \<notin> set ext \<and> n = parse_int ds)"
proof
  assume m: "html_pat s = Some n"
  then obtain c cs where s: "s = c # cs"
    by (cases s) (auto simp: html_pat_def)
  let ?ds = "takeWhile is_digit cs" and ?r = "dropWhile is_digit cs"
  from m s have c: "c = CHR ''-''" and d: "?ds \<noteq> []" and w: "startswith ?r ''w.''"
    and e: "drop 2 ?r \<noteq> []" and x: "CHR ''.'' \<notin> set (drop 2 ?r)" and n: "n = parse_int ?ds"
    by (simp_all add: html_pat_def Let_def split: if_splits)
  from w obtain ext where r: "?r = ''w.'' @ ext"
    unfolding startswith_iff by blast
  with e x have e': "ext \<noteq> []" and x': "CHR ''.'' \<notin> set ext" by simp_all
  have "cs = ?ds @ ?r" by simp
  with r have "cs = ?ds @ ''w.'' @ ext" by simp
  with s c have 1: "s = ''-'' @ ?ds @ ''w.'' @ ext" by simp
  have 2: "list_all is_digit ?ds"
    by (auto simp: list_all_iff dest: set_takeWhileD)
  from 1 d 2 e' x' n show "\<exists>ds ext. s = ''-'' @ ds @ ''w.'' @ ext \<and> ds \<noteq> [] \<and> list_all is_digit ds \<and>
        ext \<noteq> [] \<and> CHR ''.'' \<notin> set ext \<and> n = parse_int ds"
    by blast
next
  assume "\<exists>ds ext. s = ''-'' @ ds @ ''w.'' @ ext \<and> ds \<noteq> [] \<and> list_all is_digit ds \<and>
        ext \<noteq> [] \<and> CHR ''.'' \<notin> set ext \<and> n = parse_int ds"
  then obtain ds ext where s: "s = ''-'' @ ds @ ''w.'' @ ext" and d: "ds \<noteq> []"
    and a: "list_all is_digit ds" and e: "ext \<noteq> []" and x: "CHR ''.'' \<notin> set ext"
    and n: "n = parse_int ds"
    by blast
  from a have t: "takeWhile is_digit (ds @ ''w.'' @ ext) = ds"
    by (simp add: takeWhile_append2 list_all_iff not_digit_w)
  from a have r: "dropWhile is_digit (ds @ ''w.'' @ ext) = ''w.'' @ ext"
    by (simp add: dropWhile_append2 list_all_iff not_digit_w)
  from s d e x n show "html_pat s = Some n"
    by (simp add: html_pat_def Let_def startswith_def t [simplified] r [simplified])
qed

lemma html_unmatched_iff:
  "re_search html_pat b = None \<longleftrightarrow>
     \<not> (\<exists>pre ds ext. b = pre @ ''-'' @ ds @ ''w.'' @ ext \<and> ds \<noteq> [] \<and> list_all is_digit ds \<and>
        ext \<noteq> [] \<and> CHR ''.'' \<notin> set ext)"
proof -
  have "re_search html_pat b = None \<longleftrightarrow> (\<forall>pre suf. b = pre @ suf \<longrightarrow> html_pat suf = None)"
    by (rule re_search_None)
  also have "\<dots> \<longleftrightarrow> (\<forall>pre suf. b = pre @ suf \<longrightarrow> (\<forall>n. html_pat suf \<noteq> Some n))"
    by auto
  also have "\<dots> \<longleftrightarrow> \<not> (\<exists>pre ds ext. b = pre @ ''-'' @ ds @ ''w.'' @ ext \<and> ds \<noteq> [] \<and> list_all is_digit ds \<and>
        ext \<noteq> [] \<and> CHR ''.'' \<notin> set ext)"
    unfolding html_pat_Some by blast
  finally show ?thesis .
qed


lemma variants_loop_files:
  "variants_loop E im sz out_dir stem ext q ws acc fs = (Inr vs, fs') \<Longrightarrow>
   list_all (\<lambda>p. fs p \<noteq> None) (map snd acc) \<Longrightarrow>
   list_all (\<lambda>p. fs' p \<noteq> None) (map snd vs) \<and> (\<forall>p. fs p \<noteq> None \<longrightarrow> fs' p \<noteq> None)"
proof (induction ws arbitrary: acc fs)
  case Nil
  then show ?case by simp
next
  case (Cons t ws)
  show ?case
  proof (cases "fst sz \<le> t")
    case True
    with Cons.prems(1) have "variants_loop E im sz out_dir stem ext q ws acc fs = (Inr vs, fs')"
      by simp
    from Cons.IH [OF this Cons.prems(2)] show ?thesis .
  next
    case False
    let ?p = "join out_dir (variant_name stem t ext)"
    from False Cons.prems(1) obtain b where
      rest: "variants_loop E im sz out_dir stem ext q ws (acc @ [(t, ?p)]) (fs(?p \<mapsto> b)) = (Inr vs, fs')"
      by (auto simp: Let_def split: if_splits option.splits)
    from Cons.prems(2) have "list_all (\<lambda>p. (fs(?p \<mapsto> b)) p \<noteq> None) (map snd (acc @ [(t, ?p)]))"
      by (auto simp: list_all_iff)
    from Cons.IH [OF rest this]
    have 1: "list_all (\<lambda>p. fs' p \<noteq> None) (map snd vs)"
      and 2: "\<forall>p. (fs(?p \<mapsto> b)) p \<noteq> None \<longrightarrow> fs' p \<noteq> None"
      by simp_all
    from 2 have "\<forall>p. fs p \<noteq> None \<longrightarrow> fs' p \<noteq> None" by auto
    with 1 show ?thesis by simp
  qed
qed

lemma make_variants_files:
  assumes "make_variants E img_path out_dir widths fmt q w = (Inr vs, w')"
  shows "list_all (path_exists w') (map snd vs)"
proof -
  from assms obtain im sz us fs b where
    loop: "variants_loop E im sz out_dir
             (slugify_name (fst (splitext (basename img_path))))
             (if fmt = ''keep'' then lstrip (\<lambda>c. c = CHR ''.'') (snd (splitext img_path)) else fmt)
             q widths [] (files w) = (Inr us, fs)"
    and vs: "vs = sort_key fst (us @ [(fst sz,
               join out_dir (variant_name (slugify_name (fst (splitext (basename img_path)))) (fst sz)
                 (if fmt = ''keep'' then lstrip (\<lambda>c. c = CHR ''.'') (snd (splitext img_path)) else fmt)))])"
    and w': "files w' = fs(join out_dir (variant_name (slugify_name (fst (splitext (basename img_path)))) (fst sz)
                 (if fmt = ''keep'' then lstrip (\<lambda>c. c = CHR ''.'') (snd (splitext img_path)) else fmt)) \<mapsto> b)"
    by (auto simp: make_variants_def Let_def split: option.splits prod.splits sum.splits if_splits)
  from variants_loop_files [OF loop] have "list_all (\<lambda>p. fs p \<noteq> None) (map snd us)"
    by simp
  then have "\<forall>p \<in> set (map snd vs). files w' p \<noteq> None"
    unfolding vs w' by (auto simp: list_all_iff)
  then show ?thesis
    by (simp add: list_all_iff path_exists_def)
qed

lemma path_exists_manifest_update: "path_exists (w\<lparr>manifest := m\<rparr>) = path_exists w"
  by (rule ext) (simp add: path_exists_def)

lemma ensure_variants_recorded:
  assumes "ensure_variants_with_cache E d h var_dir widths fmt q w = (Inr vps, w')"
  shows "cache_hit w' h \<and> variants (the (manifest w' h)) = vps"
proof (cases "cache_hit w h")
  case True
  with assms show ?thesis
    by (auto simp: ensure_variants_with_cache_def)
next
  case False
  with assms obtain pairs w1 where mv: "make_variants E d var_dir widths fmt q w = (Inr pairs, w1)"
    and vps: "vps = map snd pairs"
    and w': "w' = w1\<lparr>manifest := (manifest w1)(h \<mapsto>
                      \<lparr>original = d, variants = map snd pairs, ts = clock E\<rparr>)\<rparr>"
    by (auto simp: ensure_variants_with_cache_def Let_def split: prod.splits sum.splits)
  from make_variants_files [OF mv] have "list_all (path_exists w1) (map snd pairs)" .
  then have "list_all (path_exists w') vps"
    unfolding vps w' by (simp only: path_exists_manifest_update)
  then show ?thesis
    unfolding w' vps by (simp add: cache_hit_def)
qed

lemma html_pairs_Cons:
  "html_pairs (p # ps) =
     (case re_search html_pat (basename p) of
        None \<Rightarrow> html_pairs ps
      | Some n \<Rightarrow> (n, p) # html_pairs ps)"
  by (simp add: html_pairs_def List.map_filter_simps split: option.splits)

lemma html_pairs_set:
  "set (html_pairs vps) = {(n, p). p \<in> set vps \<and> re_search html_pat (basename p) = Some n}"
proof (induction vps)
  case Nil
  then show ?case by (simp add: html_pairs_def List.map_filter_simps)
next
  case (Cons p ps)
  then show ?case
    by (auto simp: html_pairs_Cons split: option.splits)
qed

lemma html_pairs_Nil:
  "html_pairs vps = [] \<longleftrightarrow> (\<forall>p \<in> set vps. re_search html_pat (basename p) = None)"
proof (induction vps)
  case Nil
  then show ?case by (simp add: html_pairs_def List.map_filter_simps)
next
  case (Cons p ps)
  then show ?case
    by (simp add: html_pairs_Cons split: option.splits)
qed

text \<open>
  Claim C10. When the source of an element is ingested and its variants are generated or
  found in the cache, \<^verbatim>\<open>process_one_image_url\<close> returns the pairs of the variant paths
  whose basename matches \<^verbatim>\<open>-(\d+)w\.[^.]+$\<close>, each with the number matched, sorted by
  that number; a path whose basename does not match (it has no part of the shape
  hyphen, digits, \<^verbatim>\<open>w.\<close>, non-empty suffix without dot, at its end) is in no pair. The
  variants are recorded in the manifest and exist on disk all the same. If no path
  matches, \<^verbatim>\<open>rewrite_img\<close> leaves the element as it was. The witness is the case the claim
  names: the format \<^verbatim>\<open>keep\<close> and an original without extension give a variant whose
  name ends in a bare dot.
\<close>

theorem html_unmatched_variants_dropped:
  assumes ing: "ingest E dist_root html_dir (orig_dir_of cfg dist_root) (scheme_relative src) w
                = (Inr (Some (downloaded, h)), w1)"
    and ens: "ensure_variants_with_cache E downloaded h (var_dir_of cfg dist_root)
                (image_variants cfg) (image_format cfg) (quality cfg) w1 = (Inr vps, w2)"
    and ne: "vps \<noteq> []"
  shows "process_one_image_url E cfg dist_root html_dir src w
           = (Inr (Some (sort_key fst (html_pairs vps))), w2) \<and>
         set (html_pairs vps)
           = {(n, p). p \<in> set vps \<and> re_search html_pat (basename p) = Some n} \<and>
         (\<forall>p \<in> set vps. re_search html_pat (basename p) = None \<longleftrightarrow>
            \<not> (\<exists>pre ds ext. basename p = pre @ ''-'' @ ds @ ''w.'' @ ext \<and> ds \<noteq> [] \<and>
                  list_all is_digit ds \<and> ext \<noteq> [] \<and> CHR ''.'' \<notin> set ext)) \<and>
         cache_hit w2 h \<and> variants (the (manifest w2 h)) = vps \<and>
         (download_images cfg \<and> attrs img ''src'' = Some src \<and> src \<noteq> [] \<and>
          (\<forall>p \<in> set vps. re_search html_pat (basename p) = None)
          \<longrightarrow> rewrite_img E cfg dist_root html_dir img w = (Inr (img, False), w2))"
proof -
  have p1: "process_one_image_url E cfg dist_root html_dir src w
           = (Inr (Some (sort_key fst (html_pairs vps))), w2)"
    using ing ens ne by (simp add: process_one_image_url_def)
  have p3: "\<forall>p \<in> set vps. re_search html_pat (basename p) = None \<longleftrightarrow>
            \<not> (\<exists>pre ds ext. basename p = pre @ ''-'' @ ds @ ''w.'' @ ext \<and> ds \<noteq> [] \<and>
                  list_all is_digit ds \<and> ext \<noteq> [] \<and> CHR ''.'' \<notin> set ext)"
    using html_unmatched_iff by blast
  have p5: "download_images cfg \<and> attrs img ''src'' = Some src \<and> src \<noteq> [] \<and>
          (\<forall>p \<in> set vps. re_search html_pat (basename p) = None)
          \<longrightarrow> rewrite_img E cfg dist_root html_dir img w = (Inr (img, False), w2)"
  proof
    assume a: "download_images cfg \<and> attrs img ''src'' = Some src \<and> src \<noteq> [] \<and>
          (\<forall>p \<in> set vps. re_search html_pat (basename p) = None)"
    then have "html_pairs vps = []" by (simp add: html_pairs_Nil)
    with p1 have "process_one_image_url E cfg dist_root html_dir src w = (Inr (Some []), w2)"
      by simp
    with a show "rewrite_img E cfg dist_root html_dir img w = (Inr (img, False), w2)"
      by (simp add: rewrite_img_def falsy_def)
  qed
  from p1 html_pairs_set p3 ensure_variants_recorded [OF ens] p5 show ?thesis
    by blast
qed

theorem html_unmatched_variants_witness:
  "fst (rewrite_img ex_env ex_cfg_keep ''/site'' ''/site'' ex_logo_img ex_world)
     = Inr (ex_logo_img, False) \<and>
   map_option variants (manifest (snd (rewrite_img ex_env ex_cfg_keep ''/site'' ''/site'' ex_logo_img ex_world))
      ''b319fc46fbfe'') = Some [''/site/images/responsive/b319fc46fbfe-logo-300w.''] \<and>
   files (snd (rewrite_img ex_env ex_cfg_keep ''/site'' ''/site'' ex_logo_img ex_world))
      ''/site/images/responsive/b319fc46fbfe-logo-300w.'' = Some ''ICON'' \<and>
   gen_calls (snd (rewrite_img ex_env ex_cfg_keep ''/site'' ''/site'' ex_logo_img ex_world)) = 1"
proof -
  let ?ing = "ingest ex_env ''/site'' ''/site'' (orig_dir_of ex_cfg_keep ''/site'') (scheme_relative ''logo'') ex_world"
  let ?ens = "ensure_variants_with_cache ex_env ''/site/images/original/b319fc46fbfe-logo'' ''b319fc46fbfe''
     (var_dir_of ex_cfg_keep ''/site'') (image_variants ex_cfg_keep) (image_format ex_cfg_keep)
     (quality ex_cfg_keep) (snd ?ing)"
  have "fst ?ing = Inr (Some (''/site/images/original/b319fc46fbfe-logo'', ''b319fc46fbfe''))"
    by code_simp
  then have ing: "?ing = (Inr (Some (''/site/images/original/b319fc46fbfe-logo'', ''b319fc46fbfe'')), snd ?ing)"
    by (cases ?ing) simp
  have "fst ?ens = Inr [''/site/images/responsive/b319fc46fbfe-logo-300w.'']"
    by code_simp
  then have ens: "?ens = (Inr [''/site/images/responsive/b319fc46fbfe-logo-300w.''], snd ?ens)"
    by (cases ?ens) simp
  have none: "\<forall>p \<in> set [''/site/images/responsive/b319fc46fbfe-logo-300w.''].
      re_search html_pat (basename p) = None"
    by code_simp
  have img: "download_images ex_cfg_keep" "attrs ex_logo_img ''src'' = Some ''logo''"
    by (simp_all add: ex_cfg_keep_def ex_cfg_def ex_logo_img_def)
  from html_unmatched_variants_dropped [OF ing ens, of ex_logo_img] none img
  have run: "rewrite_img ex_env ex_cfg_keep ''/site'' ''/site'' ex_logo_img ex_world
      = (Inr (ex_logo_img, False), snd ?ens)"
    by simp
  have m: "map_option variants (manifest (snd ?ens) ''b319fc46fbfe'')
      = Some [''/site/images/responsive/b319fc46fbfe-logo-300w.'']"
    by code_simp
  have f: "files (snd ?ens) ''/site/images/responsive/b319fc46fbfe-logo-300w.'' = Some ''ICON''"
    by code_simp
  have g: "gen_calls (snd ?ens) = 1"
    by code_simp
  from run m f g show ?thesis by simp
qed

subsection \<open>The attributes of a rewritten image element\<close>

lemma basename_Nil: "basename [] = []"
  by (simp add: basename_def)

lemma html_pairs_nonempty_path: "(n, p) \<in> set (html_pairs vps) \<Longrightarrow> p \<noteq> []"
  by (auto simp: html_pairs_set basename_Nil html_pat_def)

lemma process_one_image_url_paths:
  assumes "process_one_image_url E cfg dist_root html_dir src w = (Inr (Some pairs), w')"
  shows "\<forall>(n, p) \<in> set pairs. p \<noteq> []"
proof -
  from assms obtain vps where "pairs = sort_key fst (html_pairs vps)"
    by (auto simp: process_one_image_url_def split: prod.splits sum.splits option.splits if_splits)
  then show ?thesis
    by (auto dest: html_pairs_nonempty_path)
qed

lemma relpath_total: "p \<noteq> [] \<Longrightarrow> relpath E p d = Inr (projr (relpath E p d))"
  by (simp add: relpath_def Let_def)

lemma rel_quoted_total: "p \<noteq> [] \<Longrightarrow> rel_quoted E p d = Inr (quote (projr (relpath E p d)))"
proof -
  assume "p \<noteq> []"
  then have "relpath E p d = Inr (projr (relpath E p d))" by (rule relpath_total)
  then obtain r where r: "relpath E p d = Inr r" ..
  then show ?thesis by (simp add: rel_quoted_def)
qed

lemma srcset_parts_total:
  "\<forall>(n, p) \<in> set pairs. p \<noteq> [] \<Longrightarrow>
   srcset_parts E d pairs
     = Inr (map (\<lambda>(n, p). quote (projr (relpath E p d)) @ '' '' @ show_int n @ ''w'') pairs)"
  by (induction pairs) (auto simp: rel_quoted_total)

text \<open>
  Claim C8, as amended. When the source of an \<^verbatim>\<open>img\<close> element resolves to a non-empty list
  of pairs, \<^verbatim>\<open>rewrite_img\<close> sets \<^verbatim>\<open>src\<close> to the quoted relative path of the pair at
  index \<open>min (len div 2) (len - 1)\<close>, sets \<^verbatim>\<open>srcset\<close> to the parts
  \<^verbatim>\<open><quoted relative path> <width>w\<close> of all pairs joined by a comma and a space, and sets
  \<^verbatim>\<open>sizes\<close> to the default when the element has no \<^verbatim>\<open>sizes\<close> attribute or an empty
  one; a non-empty \<^verbatim>\<open>sizes\<close> and every other attribute stay as they are.
\<close>

theorem rewrite_img_attributes:
  assumes "process_one_image_url E cfg dist_root html_dir src w = (Inr (Some pairs), w')"
    and "pairs \<noteq> []"
    and "download_images cfg" and "attrs img ''src'' = Some src" and "src \<noteq> []"
  shows "rewrite_img E cfg dist_root html_dir img w =
           (Inr (img\<lparr>attrs := (\<lambda>k.
              if k = ''src'' then
                Some (quote (projr (relpath E
                  (snd (pairs ! min (length pairs div 2) (length pairs - 1))) html_dir)))
              else if k = ''srcset'' then
                Some (join_with '', ''
                  (map (\<lambda>(n, p). quote (projr (relpath E p html_dir)) @ '' '' @ show_int n @ ''w'')
                     pairs))
              else if k = ''sizes'' then
                (if attrs img ''sizes'' = None \<or> attrs img ''sizes'' = Some []
                 then Some default_sizes else attrs img ''sizes'')
              else attrs img k)\<rparr>, True), w')"
proof -
  let ?mid = "snd (pairs ! (length pairs div 2))"
  let ?src = "quote (projr (relpath E ?mid html_dir))"
  let ?srcset = "join_with '', ''
      (map (\<lambda>(n, p). quote (projr (relpath E p html_dir)) @ '' '' @ show_int n @ ''w'') pairs)"
  let ?a1 = "(attrs img)(''src'' \<mapsto> ?src, ''srcset'' \<mapsto> ?srcset)"
  let ?a2 = "if falsy (?a1 ''sizes'') then ?a1(''sizes'' \<mapsto> default_sizes) else ?a1"
  have idx: "min (length pairs div 2) (length pairs - 1) = length pairs div 2"
    using assms(2) by (cases pairs) auto
  have all: "\<forall>(n, p) \<in> set pairs. p \<noteq> []"
    using assms(1) by (rule process_one_image_url_paths)
  have "length pairs div 2 < length pairs"
    using assms(2) by (cases pairs) auto
  then have "pairs ! (length pairs div 2) \<in> set pairs"
    by (rule nth_mem)
  with all have "?mid \<noteq> []"
    by (auto simp: split_beta)
  then have mid: "rel_quoted E ?mid html_dir = Inr ?src"
    by (rule rel_quoted_total)
  note parts = srcset_parts_total [OF all, of E html_dir]
  have run: "rewrite_img E cfg dist_root html_dir img w = (Inr (img\<lparr>attrs := ?a2\<rparr>, True), w')"
    using assms by (simp add: rewrite_img_def falsy_def idx mid parts Let_def)
  have "?a2 = (\<lambda>k.
              if k = ''src'' then Some ?src
              else if k = ''srcset'' then Some ?srcset
              else if k = ''sizes'' then
                (if attrs img ''sizes'' = None \<or> attrs img ''sizes'' = Some []
                 then Some default_sizes else attrs img ''sizes'')
              else attrs img k)"
    by (rule ext) (auto simp: falsy_def split: option.splits)
  with run show ?thesis
    unfolding idx by simp
qed


theorem rewrite_img_attributes_witness:
  "attrs (fst (projr (fst (rewrite_img ex_env ex_cfg ''/site'' ''/site'' ex_hero_img ex_world)))) ''src''
     = Some ''images/responsive/78c66aed78ee-hero-800w.webp'' \<and>
   attrs (fst (projr (fst (rewrite_img ex_env ex_cfg ''/site'' ''/site'' ex_hero_img ex_world)))) ''srcset''
     = Some (''images/responsive/78c66aed78ee-hero-480w.webp 480w, '' @
             ''images/responsive/78c66aed78ee-hero-800w.webp 800w, '' @
             ''images/responsive/78c66aed78ee-hero-1000w.webp 1000w'') \<and>
   attrs (fst (projr (fst (rewrite_img ex_env ex_cfg ''/site'' ''/site'' ex_hero_img ex_world)))) ''sizes''
     = Some ''(max-width: 1200px) 100vw, 1200px''"
proof -
  let ?pairs = "[(480, ''/site/images/responsive/78c66aed78ee-hero-480w.webp''),
                 (800, ''/site/images/responsive/78c66aed78ee-hero-800w.webp''),
                 (1000, ''/site/images/responsive/78c66aed78ee-hero-1000w.webp'')] :: (int \<times> path) list"
  let ?res = "process_one_image_url ex_env ex_cfg ''/site'' ''/site'' ''img/hero.jpg'' ex_world"
  have "fst ?res = Inr (Some ?pairs)"
    by code_simp
  then have res: "?res = (Inr (Some ?pairs), snd ?res)"
    by (cases ?res) simp
  have img: "download_images ex_cfg" "attrs ex_hero_img ''src'' = Some ''img/hero.jpg''"
      "attrs ex_hero_img ''sizes'' = None"
    by (simp_all add: ex_cfg_def ex_hero_img_def)
  have a: "quote (projr (relpath ex_env
        (snd (?pairs ! min (length ?pairs div 2) (length ?pairs - 1))) ''/site''))
      = ''images/responsive/78c66aed78ee-hero-800w.webp''"
    by code_simp
  have b: "join_with '', '' (map (\<lambda>(n, p). quote (projr (relpath ex_env p ''/site'')) @ '' '' @ show_int n @ ''w'')
        ?pairs)
      = ''images/responsive/78c66aed78ee-hero-480w.webp 480w, '' @
        ''images/responsive/78c66aed78ee-hero-800w.webp 800w, '' @
        ''images/responsive/78c66aed78ee-hero-1000w.webp 1000w''"
    by code_simp
  have c: "default_sizes = ''(max-width: 1200px) 100vw, 1200px''"
    by (simp add: default_sizes_def)
  have ne: "?pairs \<noteq> []" by simp
  have sne: "''img/hero.jpg'' \<noteq> []" by simp
  have run: "rewrite_img ex_env ex_cfg ''/site'' ''/site'' ex_hero_img ex_world = (Inr (ex_hero_img\<lparr>attrs := (\<lambda>k.
              if k = ''src'' then
                Some (quote (projr (relpath ex_env
                  (snd (?pairs ! min (length ?pairs div 2) (length ?pairs - 1))) ''/site'')))
              else if k = ''srcset'' then
                Some (join_with '', ''
                  (map (\<lambda>(n, p). quote (projr (relpath ex_env p ''/site'')) @ '' '' @ show_int n @ ''w'')
                     ?pairs))
              else if k = ''sizes'' then
                (if attrs ex_hero_img ''sizes'' = None \<or> attrs ex_hero_img ''sizes'' = Some []
                 then Some default_sizes else attrs ex_hero_img ''sizes'')
              else attrs ex_hero_img k)\<rparr>, True), snd ?res)"
    by (rule rewrite_img_attributes [OF res ne img(1) img(2) sne])
  show ?thesis
    by (simp only: run fst_conv sum.sel a b c img simp_thms if_True) simp
qed

text \<open>
  Claim C8 as stated fails for an element that has a \<^verbatim>\<open>sizes\<close> attribute with the empty
  value: the test is \<^verbatim>\<open>not img.get("sizes")\<close>, so the default replaces it.
\<close>

theorem empty_sizes_overwritten:
  "attrs ex_hero_img_sizes ''sizes'' = Some [] \<and>
   attrs (fst (projr (fst (rewrite_img ex_env ex_cfg ''/site'' ''/site'' ex_hero_img_sizes ex_world))))
     ''sizes'' = Some ''(max-width: 1200px) 100vw, 1200px''"
  by code_simp

subsection \<open>Failures while resolving an image element\<close>

text \<open>
  An exception in the body of the loop leaves \<^verbatim>\<open>rewrite_img_tags\<close>, whatever follows in
  the document; a failed fetch is such an exception, a local path that does not exist is
  not.
\<close>

lemma rewrite_elems_raises:
  "tag x = name \<Longrightarrow> body x w = (Inl e, w') \<Longrightarrow>
   rewrite_elems body name (x # xs) w = (Inl e, w')"
  by simp

lemma rewrite_img_tags_raises:
  "tag x = ''img'' \<Longrightarrow> rewrite_img E cfg dist_root html_dir x w = (Inl e, w') \<Longrightarrow>
   rewrite_img_tags E cfg dist_root html_dir (x # xs) w = (Inl e, w')"
  by (simp add: rewrite_img_tags_def)

lemma process_one_image_url_fetch_error:
  assumes "startswith (scheme_relative src) ''http://'' \<or> startswith (scheme_relative src) ''https://''"
    and "http_get E (scheme_relative src) = None"
  shows "process_one_image_url E cfg dist_root html_dir src w = (Inl FetchError, w)"
  using assms
  by (simp add: process_one_image_url_def ingest_def download_remote_image_def)

lemma rewrite_img_fetch_error:
  assumes "download_images cfg" and "attrs img ''src'' = Some src" and "src \<noteq> []"
    and "startswith (scheme_relative src) ''http://'' \<or> startswith (scheme_relative src) ''https://''"
    and "http_get E (scheme_relative src) = None"
  shows "rewrite_img E cfg dist_root html_dir img w = (Inl FetchError, w)"
  using assms(1-3) process_one_image_url_fetch_error [OF assms(4,5)]
  by (simp add: rewrite_img_def falsy_def)

lemma rewrite_img_missing_local:
  assumes "attrs img ''src'' = Some src"
    and "\<not> startswith (scheme_relative src) ''http://''"
    and "\<not> startswith (scheme_relative src) ''https://''"
    and "\<not> path_exists w (normpath (join html_dir (scheme_relative src)))"
    and "\<not> path_exists w (join dist_root (lstrip (\<lambda>c. c = CHR ''/'') (scheme_relative src)))"
  shows "rewrite_img E cfg dist_root html_dir img w = (Inr (img, False), w)"
  using assms
  by (simp add: rewrite_img_def falsy_def process_one_image_url_def ingest_def Let_def)

text \<open>
  Claim C1. The claim does not hold of \<^verbatim>\<open>rewrite_img_tags\<close>: \<^verbatim>\<open>process_one_image_url\<close> is
  called outside any \<^verbatim>\<open>try\<close>, so a failed fetch or an undecodable image raises out of
  the loop and the elements after it are not visited. (Only a local path that does not
  exist is skipped.) The CSS rewriter wraps the same steps in \<^verbatim>\<open>try\<close> and
  \<^verbatim>\<open>except Exception\<close>. Here the first element of the document fails and the rewriting
  of the document ends with the exception.
\<close>

theorem rewrite_img_tags_aborts:
  "isl (fst (rewrite_img_tags ex_env ex_cfg ''/site'' ''/site'' [ex_remote_img, ex_hero_img] ex_world)) \<and>
   projl (fst (rewrite_img_tags ex_env ex_cfg ''/site'' ''/site'' [ex_remote_img, ex_hero_img] ex_world))
     = FetchError \<and>
   isl (fst (rewrite_img_tags ex_env ex_cfg ''/site'' ''/site'' [ex_notes_img, ex_hero_img] ex_world)) \<and>
   projl (fst (rewrite_img_tags ex_env ex_cfg ''/site'' ''/site'' [ex_notes_img, ex_hero_img] ex_world))
     = DecodeError"
  by code_simp

subsection \<open>The variant chosen by the CSS rewriter\<close>

text \<open>
  What holds of \<^verbatim>\<open>repl\<close>: an exception gives the match back, and a successful resolution
  gives \<^verbatim>\<open>url(...)\<close> around the quoted relative path of the first variant of the
  largest \<^verbatim>\<open>width_of\<close>; the two safe characters are not encoded.
\<close>

lemma css_repl_failure:
  "css_try E cfg dist_root css_dir m w = (Inl e, w') \<Longrightarrow>
   css_repl E cfg dist_root css_dir m w = (whole m, w')"
  by (simp add: css_repl_def)

lemma css_repl_success:
  assumes "ingest E dist_root css_dir (orig_dir_of cfg dist_root) (scheme_relative (target m)) w
             = (Inr (Some (downloaded, h)), w1)"
    and "ensure_variants_with_cache E downloaded h (var_dir_of cfg dist_root)
             (image_variants cfg) (image_format cfg) (quality cfg) w1 = (Inr (p # ps), w2)"
    and "max_by width_of p ps \<noteq> []"
  shows "css_repl E cfg dist_root css_dir m w
           = (''url('' @ quote (projr (relpath E (max_by width_of p ps) css_dir)) @ '')'', w2)"
proof -
  from assms(3) have "rel_quoted E (max_by width_of p ps) css_dir
      = Inr (quote (projr (relpath E (max_by width_of p ps) css_dir)))"
    by (simp add: rel_quoted_def relpath_def Let_def)
  with assms(1,2) show ?thesis
    by (simp add: css_repl_def css_try_def)
qed

lemma quote_char_safe: "c = CHR ''/'' \<or> c = CHR '':'' \<Longrightarrow> quote_char c = [c]"
  by (auto simp: quote_char_def quote_keeps_def)

text \<open>
  Claim C9. \<^verbatim>\<open>width_of\<close> reads the first \<^verbatim>\<open>-<digits>w.\<close> of the basename, which need not
  be the width that \<^verbatim>\<open>make_variants\<close> appended. For the image \<^verbatim>\<open>hero-1200w.v2.jpg\<close> of natural
  width 1000 every variant has \<^verbatim>\<open>width_of\<close> 1200, \<^verbatim>\<open>max\<close> returns the first of them, and
  the style sheet refers to the variant of width 480 although the variants of width 800
  and 1000 were generated.
\<close>

theorem css_picks_first_variant:
  "files (snd (rewrite_css_urls ex_env ex_cfg ''/site'' ''/site/css/main.css'' ex_world))
      ''/site/css/main.css''
     = Some ''body{background:url(../images/responsive/78c66aed78ee-hero-1200w.v2-480w.webp)}'' \<and>
   map_option variants
      (manifest (snd (rewrite_css_urls ex_env ex_cfg ''/site'' ''/site/css/main.css'' ex_world))
         ''78c66aed78ee'')
     = Some [''/site/images/responsive/78c66aed78ee-hero-1200w.v2-480w.webp'',
             ''/site/images/responsive/78c66aed78ee-hero-1200w.v2-800w.webp'',
             ''/site/images/responsive/78c66aed78ee-hero-1200w.v2-1000w.webp''] \<and>
   map width_of [''/site/images/responsive/78c66aed78ee-hero-1200w.v2-480w.webp'',
             ''/site/images/responsive/78c66aed78ee-hero-1200w.v2-800w.webp'',
             ''/site/images/responsive/78c66aed78ee-hero-1200w.v2-1000w.webp''] = [1200, 1200, 1200]"
  by code_simp

subsection \<open>A second run on a directory\<close>

text \<open>
  After \<^verbatim>\<open>copy_src\<close> of a directory, a file under the output root exists only if the
  input tree has it; a manifest entry with a recorded variant that the input tree lacks
  is then a cache miss.
\<close>

lemma copytree_rmtree_missing:
  assumes "is_under outdir p"
    and "is_under outdir (src @ drop (length outdir) p) \<or> fs (src @ drop (length outdir) p) = None"
  shows "copytree src outdir (rmtree outdir fs) p = None"
  using assms by (auto simp: copytree_def rmtree_def)

lemma copy_src_directory_misses:
  assumes dir: "\<not> (endswith (lower src) ''.zip'' \<and> path_exists w src)"
    and rec: "manifest w h = Some e" and p: "p \<in> set (variants e)"
    and u: "is_under outdir p"
    and absent: "is_under outdir (src @ drop (length outdir) p) \<or> files w (src @ drop (length outdir) p) = None"
  shows "\<not> cache_hit (snd (copy_src E src outdir w)) h"
proof -
  let ?w = "snd (copy_src E src outdir w)"
  from dir have w': "?w = w\<lparr>files := copytree src outdir (rmtree outdir (files w))\<rparr>"
    by (auto simp: copy_src_def)
  have "files ?w p = None"
    unfolding w' using copytree_rmtree_missing [of outdir p src "files w", OF u absent] by simp
  then have "\<not> path_exists ?w p" by (simp add: path_exists_def)
  moreover have "manifest ?w h = Some e" unfolding w' using rec by simp
  ultimately show ?thesis
    using p by (auto simp: cache_hit_def list_all_iff)
qed

text \<open>
  Claim C4. For a directory input \<^verbatim>\<open>copy_src\<close> removes the output tree before it copies,
  and with it the variants that the manifest records. The first run generates the
  variants of the image once; after the copy step of the second run the recorded files
  are gone, and the second run calls the generator again.
\<close>

theorem second_run_generates_again:
  "gen_calls (ex_run ex_input) = 1 \<and>
   map_option variants (manifest (ex_run ex_input) ''78c66aed78ee'')
     = Some [''/site/images/responsive/78c66aed78ee-hero-480w.webp'',
             ''/site/images/responsive/78c66aed78ee-hero-800w.webp'',
             ''/site/images/responsive/78c66aed78ee-hero-1000w.webp''] \<and>
   files (snd (copy_src ex_env ''/input'' ''/site'' (ex_run ex_input)))
      ''/site/images/responsive/78c66aed78ee-hero-480w.webp'' = None \<and>
   gen_calls (ex_run (ex_run ex_input)) = 2"
  by code_simp

subsection \<open>The height of a variant\<close>

lemma pow2_powi: "pow2 e = 2 powi e"
  unfolding pow2_def power_int_def by (simp add: inverse_eq_divide power_one_over)

lemma pow2_pos: "0 < pow2 e"
  by (simp add: pow2_powi)

lemma pow2_add: "pow2 (a + b) = pow2 a * pow2 b"
  by (simp add: pow2_powi power_int_add)

lemma pow2_diff: "pow2 (a - b) = pow2 a / pow2 b"
  by (simp add: pow2_powi power_int_diff)

lemma pow2_nat: "pow2 (int n) = 2 ^ n"
  by (simp add: pow2_def)

lemma pow2_one: "pow2 1 = 2"
  by (simp add: pow2_def)

lemma pow2_Suc: "pow2 (e + 1) = 2 * pow2 e"
  by (simp add: pow2_add pow2_one)

lemma pow2_mono: "a \<le> b \<Longrightarrow> pow2 a \<le> pow2 b"
  by (simp add: pow2_powi power_int_increasing)

lemma bitlen_bounds: "0 < n \<Longrightarrow> 2 ^ (bitlen n - 1) \<le> n \<and> n < 2 ^ bitlen n"
proof (induction n rule: bitlen.induct)
  case (1 n)
  show ?case
  proof (cases "n = 1")
    case True
    then show ?thesis by (simp add: bitlen.simps)
  next
    case False
    with "1.prems" have pos: "0 < n div 2" by simp
    with "1.IH" "1.prems" have ih: "2 ^ (bitlen (n div 2) - 1) \<le> n div 2" "n div 2 < 2 ^ bitlen (n div 2)"
      by simp_all
    from pos have bl: "0 < bitlen (n div 2)"
      by (subst bitlen.simps) simp
    have b: "bitlen n = Suc (bitlen (n div 2))"
      using "1.prems" by (subst bitlen.simps) simp
    from bl have "(2::int) ^ bitlen (n div 2) = 2 * 2 ^ (bitlen (n div 2) - 1)"
      by (cases "bitlen (n div 2)") simp_all
    with ih(1) have lo: "2 ^ bitlen (n div 2) \<le> n" by simp
    from ih(2) have hi: "n < 2 * 2 ^ bitlen (n div 2)" by simp
    from lo hi b show ?thesis by simp
  qed
qed


lemma bitlen_pos: "0 < n \<Longrightarrow> 0 < bitlen n"
  by (subst bitlen.simps) simp

lemma bitlen_bounds_rat:
  assumes "0 < n"
  shows "pow2 (int (bitlen n) - 1) \<le> of_int n" and "of_int n < pow2 (int (bitlen n))"
proof -
  from bitlen_bounds [OF assms] have lo: "2 ^ (bitlen n - 1) \<le> n" and hi: "n < 2 ^ bitlen n"
    by simp_all
  from bitlen_pos [OF assms] have "int (bitlen n) - 1 = int (bitlen n - 1)" by simp
  then have "pow2 (int (bitlen n) - 1) = 2 ^ (bitlen n - 1)"
    by (simp only: pow2_nat)
  also have "\<dots> = of_int (2 ^ (bitlen n - 1))" by simp
  also from lo have "\<dots> \<le> of_int n" by (simp only: of_int_le_iff)
  finally show "pow2 (int (bitlen n) - 1) \<le> of_int n" .
  from hi have "(of_int n :: rat) < of_int (2 ^ bitlen n)" by (simp only: of_int_less_iff)
  then show "of_int n < pow2 (int (bitlen n))" by (simp add: pow2_nat)
qed

lemma ilog2_bounds:
  assumes "0 < x"
  shows "pow2 (ilog2 x) \<le> x \<and> x < pow2 (ilog2 x + 1)"
proof -
  obtain p q where pq: "quotient_of x = (p, q)" by (cases "quotient_of x")
  then have q: "0 < q" by (rule quotient_of_denom_pos)
  from pq have x: "x = of_int p / of_int q" by (rule quotient_of_div)
  with assms q have p: "0 < p" by (simp add: zero_less_divide_iff)
  let ?k = "int (bitlen p) - int (bitlen q)"
  note bp = bitlen_bounds_rat [OF p] and bq = bitlen_bounds_rat [OF q]
  have qr: "(0::rat) < of_int q" using q by simp
  have upper: "x < pow2 (?k + 1)"
  proof -
    have "x < pow2 (int (bitlen p)) / of_int q"
      unfolding x using bp(2) qr by (simp add: divide_strict_right_mono)
    also have "\<dots> \<le> pow2 (int (bitlen p)) / pow2 (int (bitlen q) - 1)"
      using bq(1) pow2_pos [of "int (bitlen q) - 1"] pow2_pos [of "int (bitlen p)"]
      by (simp add: frac_le)
    also have "\<dots> = pow2 (?k + 1)"
      by (simp add: pow2_diff [symmetric] algebra_simps)
    finally show ?thesis .
  qed
  have lower: "pow2 (?k - 1) \<le> x"
  proof -
    have "pow2 (?k - 1) = pow2 (int (bitlen p) - 1) / pow2 (int (bitlen q))"
      by (simp add: pow2_diff [symmetric] algebra_simps)
    also have "\<dots> \<le> of_int p / pow2 (int (bitlen q))"
      using bp(1) pow2_pos [of "int (bitlen q)"] by (simp add: divide_right_mono)
    also have "\<dots> \<le> of_int p / of_int q"
      using bq(2) qr p by (simp add: frac_le)
    finally show ?thesis unfolding x .
  qed
  show ?thesis
  proof (cases "pow2 ?k \<le> x")
    case True
    with pq have "ilog2 x = ?k" by (simp add: ilog2_def)
    with True upper show ?thesis by simp
  next
    case False
    with pq have "ilog2 x = ?k - 1" by (simp add: ilog2_def)
    with False lower show ?thesis by simp
  qed
qed

lemma round_even_error: "\<bar>of_int (round_even m) - m\<bar> \<le> 1 / 2"
proof -
  have "of_int \<lfloor>m\<rfloor> \<le> m" "m < of_int \<lfloor>m\<rfloor> + 1" by linarith+
  then show ?thesis
    by (auto simp: round_even_def Let_def abs_le_iff)
qed

lemma round_even_int: "round_even (of_int k) = k"
  by (simp add: round_even_def)

lemma fl_zero: "fl 0 = 0"
  by (simp add: fl_def)

lemma fl_pos_eq:
  "0 < x \<Longrightarrow> fl x = of_int (round_even (x / pow2 (ilog2 x - 52))) * pow2 (ilog2 x - 52)"
  by (simp add: fl_def Let_def)

lemma fl_error:
  assumes "0 < x"
  shows "\<bar>fl x - x\<bar> \<le> x / 2 ^ 53"
proof -
  let ?u = "pow2 (ilog2 x - 52)"
  let ?m = "x / ?u"
  have u: "0 < ?u" by (rule pow2_pos)
  have "fl x - x = (of_int (round_even ?m) - ?m) * ?u"
    using u by (simp add: fl_pos_eq [OF assms] algebra_simps)
  then have "\<bar>fl x - x\<bar> = \<bar>of_int (round_even ?m) - ?m\<bar> * ?u"
    using u by (simp add: abs_mult)
  also have "\<dots> \<le> (1 / 2) * ?u"
    using round_even_error [of ?m] u by (simp add: mult_right_mono)
  also have "\<dots> = pow2 (ilog2 x) / 2 ^ 53"
  proof -
    have "pow2 (ilog2 x - 52) = pow2 (ilog2 x) / pow2 52" by (rule pow2_diff)
    also have "pow2 52 = 2 ^ 52" using pow2_nat [of 52] by simp
    finally show ?thesis by simp
  qed
  also have "\<dots> \<le> x / 2 ^ 53"
    using ilog2_bounds [OF assms] by (simp add: divide_right_mono)
  finally show ?thesis .
qed

lemma fl_nonneg: "0 \<le> x \<Longrightarrow> 0 \<le> fl x"
proof (cases "x = 0")
  case True
  then show ?thesis by (simp add: fl_zero)
next
  case False
  assume "0 \<le> x"
  with False have pos: "0 < x" by simp
  define d where "d = x / 2 ^ 53"
  from fl_error [OF pos] have "\<bar>fl x - x\<bar> \<le> d"
    by (simp only: d_def)
  then have "x - d \<le> fl x" by linarith
  moreover have "d \<le> x"
    unfolding d_def using pos by (simp add: pos_divide_le_eq)
  ultimately show ?thesis by linarith
qed

lemma pow2_less_cancel: "pow2 a < pow2 b \<Longrightarrow> a < b"
  using pow2_mono [of b a] by (cases "a < b") auto

lemma fl_int:
  assumes "0 \<le> n" and "n < 2 ^ 53"
  shows "fl (of_int n) = of_int n"
proof (cases "n = 0")
  case True
  then show ?thesis by (simp add: fl_zero)
next
  case False
  with assms have pos: "(0::rat) < of_int n" by simp
  let ?e = "ilog2 (of_int n)"
  from ilog2_bounds [OF pos] have "pow2 ?e \<le> of_int n" by simp
  also have "(of_int n :: rat) < of_int (2 ^ 53)"
    using assms(2) by (simp only: of_int_less_iff)
  also have "(of_int (2 ^ 53) :: rat) = pow2 53"
    using pow2_nat [of 53] by simp
  finally have "?e < 53" by (rule pow2_less_cancel)
  then have e: "0 \<le> 52 - ?e" by simp
  have inv: "pow2 (?e - 52) * pow2 (52 - ?e) = 1"
    using pow2_add [of "?e - 52" "52 - ?e"] by (simp add: pow2_def)
  have "of_int n / pow2 (?e - 52) = of_int n * pow2 (52 - ?e)"
    using inv pow2_pos [of "?e - 52"] by (simp add: field_simps)
  also have "\<dots> = of_int (n * 2 ^ nat (52 - ?e))"
    using e by (simp add: pow2_def)
  finally have m: "of_int n / pow2 (?e - 52) = of_int (n * 2 ^ nat (52 - ?e))" .
  have "fl (of_int n) = of_int (n * 2 ^ nat (52 - ?e)) * pow2 (?e - 52)"
    by (simp only: fl_pos_eq [OF pos] m round_even_int)
  also have "\<dots> = of_int n * (pow2 (52 - ?e) * pow2 (?e - 52))"
    using e by (simp add: pow2_def [of "52 - ?e"])
  also have "\<dots> = of_int n"
    using inv by (simp add: mult.commute)
  finally show ?thesis .
qed

lemma floor_close:
  fixes p x :: rat
  assumes "\<bar>p - x\<bar> < 1"
  shows "\<bar>\<lfloor>p\<rfloor> - \<lfloor>x\<rfloor>\<bar> \<le> 1"
  using assms by linarith

lemma trunc_nonneg: "0 \<le> x \<Longrightarrow> trunc x = \<lfloor>x\<rfloor>"
  by (simp add: trunc_def)

lemma fl_nonpos: "x \<le> 0 \<Longrightarrow> fl x \<le> 0"
proof -
  assume "x \<le> 0"
  then have "0 \<le> fl (- x)" by (simp add: fl_nonneg)
  moreover have "fl (- x) = - fl x" by (simp add: fl_def Let_def)
  ultimately show ?thesis by simp
qed

lemma trunc_nonpos: "x \<le> 0 \<Longrightarrow> trunc x \<le> 0"
  by (auto simp: trunc_def ceiling_le_zero)

lemma variant_height_positive_width:
  assumes w: "0 < w" "w < 2 ^ 53" and h: "0 \<le> h" "h < 2 ^ 50" and t: "0 < t" "t < w"
  shows "1 \<le> variant_height h w t \<and>
         \<bar>variant_height h w t - max 1 \<lfloor>(of_int (h * t) :: rat) / of_int w\<rfloor>\<bar> \<le> 1 \<and>
         (fl (of_int t / of_int w) = of_int t / of_int w \<and>
          fl (of_int h * (of_int t / of_int w)) = of_int h * (of_int t / of_int w)
          \<longrightarrow> variant_height h w t = max 1 \<lfloor>(of_int (h * t) :: rat) / of_int w\<rfloor>)"
proof -
  define q :: rat where "q = of_int t / of_int w"
  define r where "r = fl q"
  define x where "x = of_int h * q"
  define p where "p = fl (of_int h * r)"
  have x_eq: "(of_int (h * t) :: rat) / of_int w = x"
    by (simp add: x_def q_def)
  have q_pos: "0 < q" and q_lt: "q < 1"
    using w t by (simp_all add: q_def)
  have r_nonneg: "0 \<le> r"
    unfolding r_def using q_pos by (simp add: fl_nonneg)
  have hr_nonneg: "0 \<le> of_int h * r"
    using h r_nonneg by simp
  have p_nonneg: "0 \<le> p"
    unfolding p_def using hr_nonneg by (rule fl_nonneg)
  have "t < 2 ^ 53" using t w by simp
  then have ft: "fl (of_int t) = of_int t" using t by (simp add: fl_int)
  have fw: "fl (of_int w) = of_int w" using w by (simp add: fl_int)
  have "h < 2 ^ 53" using h by simp
  then have fh: "fl (of_int h) = of_int h" using h by (simp add: fl_int)
  have vh: "variant_height h w t = max 1 \<lfloor>p\<rfloor>"
    by (simp add: variant_height_def ft fw fh p_def r_def q_def trunc_nonneg [OF p_nonneg [unfolded p_def r_def q_def]])
  have c1: "1 \<le> variant_height h w t"
    unfolding vh by simp
  have close: "\<bar>p - x\<bar> < 1"
  proof (cases "h = 0")
    case True
    then show ?thesis by (simp add: p_def x_def fl_zero)
  next
    case False
    with h have h_pos: "(0::rat) < of_int h" by simp
    define eps :: rat where "eps = 1 / 2 ^ 53"
    have eq: "\<bar>r - q\<bar> \<le> q * eps"
      using fl_error [OF q_pos] by (simp add: r_def eps_def)
    have "q * eps < q"
      using q_pos by (simp add: eps_def)
    with eq have r_le: "r \<le> 2 * q" and r_pos: "0 < r"
      by linarith+
    with h_pos have hr_pos: "0 < of_int h * r" by simp
    have "\<bar>p - of_int h * r\<bar> \<le> of_int h * r * eps"
      using fl_error [OF hr_pos] by (simp add: p_def eps_def)
    also have "\<dots> \<le> of_int h * (2 * q) * eps"
      using r_le h_pos by (simp add: eps_def mult_left_mono divide_right_mono)
    finally have e1: "\<bar>p - of_int h * r\<bar> \<le> 2 * x * eps"
      by (simp add: x_def algebra_simps)
    have "\<bar>of_int h * r - x\<bar> = of_int h * \<bar>r - q\<bar>"
      using h_pos by (simp add: x_def abs_mult right_diff_distrib [symmetric])
    also have "\<dots> \<le> of_int h * (q * eps)"
      using eq h_pos by (simp add: mult_left_mono)
    finally have e2: "\<bar>of_int h * r - x\<bar> \<le> x * eps"
      by (simp add: x_def algebra_simps)
    from e1 e2 have e3: "\<bar>p - x\<bar> \<le> 3 * x * eps" by linarith
    have "x < of_int h"
      unfolding x_def using q_lt h_pos by simp
    also have "(of_int h :: rat) < of_int (2 ^ 50)"
      using h(2) by (simp only: of_int_less_iff)
    finally have "x < 2 ^ 50" by simp
    then have "3 * x * eps < 1"
      by (simp add: eps_def)
    with e3 show ?thesis by linarith
  qed
  from floor_close [OF close] have c2: "\<bar>variant_height h w t - max 1 \<lfloor>x\<rfloor>\<bar> \<le> 1"
    unfolding vh by linarith
  have c3: "fl (of_int t / of_int w) = of_int t / of_int w \<and>
          fl (of_int h * (of_int t / of_int w)) = of_int h * (of_int t / of_int w)
          \<longrightarrow> variant_height h w t = max 1 \<lfloor>x\<rfloor>"
  proof
    assume "fl (of_int t / of_int w) = of_int t / of_int w \<and>
          fl (of_int h * (of_int t / of_int w)) = of_int h * (of_int t / of_int w)"
    then have "p = x" by (simp add: p_def r_def q_def x_def)
    with vh show "variant_height h w t = max 1 \<lfloor>x\<rfloor>" by simp
  qed
  from c1 c2 c3 show ?thesis
    unfolding x_eq by blast
qed


lemma variant_height_nonpositive_width:
  assumes w: "0 < w" "w < 2 ^ 53" and h: "0 \<le> h" "h < 2 ^ 50" and t: "t \<le> 0"
  shows "variant_height h w t = 1 \<and> max 1 \<lfloor>(of_int (h * t) :: rat) / of_int w\<rfloor> = 1"
proof -
  have fw: "fl (of_int w) = of_int w" using w by (simp add: fl_int)
  have "h < 2 ^ 53" using h by simp
  then have fh: "fl (of_int h) = of_int h" using h by (simp add: fl_int)
  have "fl (of_int t) \<le> 0" using t by (simp add: fl_nonpos)
  then have "fl (of_int t) / of_int w \<le> 0"
    using w by (simp add: divide_le_0_iff)
  then have "fl (fl (of_int t) / of_int w) \<le> 0" by (rule fl_nonpos)
  then have "of_int h * fl (fl (of_int t) / of_int w) \<le> 0"
    using h by (simp add: mult_le_0_iff)
  then have "fl (of_int h * fl (fl (of_int t) / of_int w)) \<le> 0" by (rule fl_nonpos)
  then have "trunc (fl (of_int h * fl (fl (of_int t) / of_int w))) \<le> 0" by (rule trunc_nonpos)
  then have 1: "variant_height h w t = 1"
    by (simp add: variant_height_def fw fh)
  have "h * t \<le> 0" using h t by (simp add: mult_le_0_iff)
  then have "(of_int (h * t) :: rat) / of_int w \<le> 0"
    using w by (simp add: divide_le_0_iff del: of_int_mult)
  then have "\<lfloor>(of_int (h * t) :: rat) / of_int w\<rfloor> \<le> 0"
    by (simp add: floor_le_zero del: of_int_mult)
  then have 2: "max 1 \<lfloor>(of_int (h * t) :: rat) / of_int w\<rfloor> = 1" by simp
  from 1 2 show ?thesis ..
qed

text \<open>
  Claim C6, as amended. For an image of natural size \<open>(w, h)\<close> with \<open>0 < w < 2^53\<close> and
  \<open>0 \<le> h < 2^50\<close> and a requested width \<open>t < w\<close>, the height that \<^verbatim>\<open>make_variants\<close>
  passes to \<^verbatim>\<open>resize\<close> is \<^verbatim>\<open>max(1, int(h * (t / float(w))))\<close>: quotient and product are
  rounded to double precision and the product is truncated, not rounded to the nearest
  integer. It is at least 1, it differs from \<open>max 1 \<lfloor>h * t / w\<rfloor>\<close> by at most 1, and it
  equals that number when \<open>t / w\<close> and \<open>h * (t / w)\<close> are floats. (For \<open>h = w = 49\<close> and
  \<open>t = 2\<close> the two roundings give 1 where the exact quotient is 2.)
\<close>

theorem variant_height_truncates:
  assumes w: "0 < w" "w < 2 ^ 53" and h: "0 \<le> h" "h < 2 ^ 50" and t: "t < w"
  shows "1 \<le> variant_height h w t \<and>
         \<bar>variant_height h w t - max 1 \<lfloor>(of_int (h * t) :: rat) / of_int w\<rfloor>\<bar> \<le> 1 \<and>
         (fl (of_int t / of_int w) = of_int t / of_int w \<and>
          fl (of_int h * (of_int t / of_int w)) = of_int h * (of_int t / of_int w)
          \<longrightarrow> variant_height h w t = max 1 \<lfloor>(of_int (h * t) :: rat) / of_int w\<rfloor>)"
proof (cases "0 < t")
  case True
  from w h True t show ?thesis by (rule variant_height_positive_width)
next
  case False
  then have "t \<le> 0" by simp
  from variant_height_nonpositive_width [OF w h this] show ?thesis by simp
qed

theorem variant_height_truncates_witness:
  "variant_height 768 1024 480 = 360 \<and> variant_height 49 49 2 = 1 \<and>
   \<lfloor>(of_int (49 * 2) :: rat) / of_int 49\<rfloor> = 2"
proof -
  have e1: "fl (of_int 480 / of_int 1024) = of_int 480 / of_int 1024"
    by code_simp
  have e2: "fl (of_int 768 * (of_int 480 / of_int 1024)) = of_int 768 * (of_int 480 / of_int 1024)"
    by code_simp
  have "variant_height 768 1024 480 = max 1 \<lfloor>(of_int (768 * 480) :: rat) / of_int 1024\<rfloor>"
    using variant_height_truncates [of 1024 768 480] e1 e2 by simp
  also have "\<dots> = 360" by code_simp
  finally have 1: "variant_height 768 1024 480 = 360" .
  have 2: "variant_height 49 49 2 = 1" by code_simp
  have 3: "\<lfloor>(of_int (49 * 2) :: rat) / of_int 49\<rfloor> = 2" by code_simp
  from 1 2 3 show ?thesis by simp
qed

text \<open>
  Claim C6 as stated fails: for an image of 8 by 5 pixels and the width 3 the code
  computes \<open>int(5 * 0.375) = int(1.875) = 1\<close>, the claim \<open>round(1.875) = 2\<close>.
\<close>

theorem height_truncated_not_rounded:
  "variant_height 5 8 3 = 1 \<and> spec_height 5 8 3 = 2"
  by code_simp

end
